theory Spec2Isabelle
  imports Complex_Main "HOL-Library.Word"
begin

section \<open>The estimated Markov state model of PyEMMA\<close>

text \<open>
  A shallow embedding of the class \<open>EstimatedMSM\<close> of
  \<open>pyemma/msm/estimators/estimated_msm.py\<close>: its constructor, its accessors and
  \<open>trajectory_weights\<close>. A state label is an element of an integer array of numpy
  (\<open>dtype=int\<close>), a signed 64-bit integer; an array of labels is a list of them and a
  count matrix is a list of rows. Floating-point numbers are idealised as reals; only the
  results of a division keep the special values of IEEE arithmetic, since numpy divides
  by zero without raising.
\<close>

subsection \<open>Exceptions and numpy primitives\<close>

datatype error =
  AssertionError | IndexError | ValueError | NotImplementedError | TypeError
  | OtherError string

datatype float64 = Finite real | PosInf | NegInf | NaN

type_synonym label = "64 word"

text \<open>
  Division of a float array element by a scalar (\<open>w /= wtot\<close>): numpy raises nothing
  on a zero divisor; it yields \<open>nan\<close> for \<open>0/0\<close> and a signed infinity otherwise.
\<close>

definition np_div :: "real \<Rightarrow> real \<Rightarrow> float64" where
  "np_div w d =
     (if d \<noteq> 0 then Finite (w / d)
      else if w = 0 then NaN
      else if 0 < w then PosInf else NegInf)"

text \<open>
  An index \<open>i\<close> into an array of length \<open>n\<close> is read as a signed 64-bit integer and
  accepted when \<open>-n \<le> i < n\<close>; a negative index counts from the end.
\<close>

definition in_bounds :: "nat \<Rightarrow> label \<Rightarrow> bool" where
  "in_bounds n i \<longleftrightarrow> - int n \<le> sint i \<and> sint i < int n"

definition wrap :: "nat \<Rightarrow> label \<Rightarrow> nat" where
  "wrap n i = nat (if sint i < 0 then int n + sint i else sint i)"

text \<open>Reading with an integer index array, \<open>a[idx]\<close>: a new array, or IndexError.\<close>

definition np_take :: "'a list \<Rightarrow> label list \<Rightarrow> error + 'a list" where
  "np_take a idx =
     (if list_all (in_bounds (length a)) idx
      then Inr (map (\<lambda>i. a ! wrap (length a) i) idx)
      else Inl IndexError)"

text \<open>
  Writing with an integer index array, \<open>a[idx] = vals\<close>. The values must have the
  length of the index array or length one (broadcasting), else ValueError; every index
  must be in bounds, else IndexError. The assignments happen in index order, so that the
  last one wins where an index repeats.
\<close>

definition np_put :: "'a list \<Rightarrow> label list \<Rightarrow> 'a list \<Rightarrow> error + 'a list" where
  "np_put a idx vals =
     (if length vals \<noteq> length idx \<and> length vals \<noteq> 1 then Inl ValueError
      else if \<not> list_all (in_bounds (length a)) idx then Inl IndexError
      else Inr (fold (\<lambda>(i, v) b. b[wrap (length a) i := v])
                  (zip idx (if length vals = length idx then vals
                            else replicate (length idx) (hd vals))) a))"

text \<open>
  \<open>np.sum(W)\<close> for a Python list \<open>W\<close> of float arrays. When all arrays have the same
  length the list converts to a two-dimensional array and the result is the sum of all
  its elements. A ragged list has no rectangular shape: numpy raises ValueError
  (on converting the list, or, in releases that build an object array instead, when the
  member arrays fail to broadcast in the sum or in the in-place division that follows).
\<close>

definition np_sum :: "real list list \<Rightarrow> error + real" where
  "np_sum W =
     (if list_all (\<lambda>w. length w = length (hd W)) W
      then Inr (sum_list (map sum_list W))
      else Inl ValueError)"

subsection \<open>The model object\<close>

text \<open>
  The attributes of an \<open>EstimatedMSM\<close> instance. An attribute \<open>self._x\<close> is the field
  \<open>m_x\<close>. The two attributes that are created on access, \<open>_dtrajs_active\<close> and
  \<open>_active_state_indexes\<close>, are \<open>None\<close> while absent. The entries of the map from full
  to active labels are \<open>-1\<close> and positions in the active set, kept as integers.
\<close>

record EstimatedMSM =
  m_transition_matrix :: "real list list"
  m_stationary_distribution :: "real list"
  m_lag :: int
  m_connectivity :: string
  m_active_set :: "label list"
  m_dtrajs_full :: "label list list"
  m_dt_traj :: string
  m_C_full :: "int list list"
  m_C_active :: "int list list"
  m_connected_sets :: "label list list"
  m_nstates_full :: nat
  m_full2active :: "int list"
  m_is_estimated :: bool
  m_dtrajs_active :: "int list list option"
  m_active_state_indexes :: "(nat \<times> nat) list list option"

text \<open>
  The constructor. Its first statement calls the constructor of the superclass \<open>MSM\<close>
  with the transition matrix and \<open>TimeUnit(dt_traj).get_scaled(lag)\<close>. Neither \<open>MSM\<close> nor
  \<open>TimeUnit\<close> is among the sources, so the call is the parameter \<open>msm\<close>: applied to the
  transition matrix, the time step and the lag it yields the exception that the call
  raises, or else the value that the inherited property \<open>stationary_distribution\<close> has
  on the object. An exception raised there leaves the constructor before anything else
  happens.

  On immutable values \<open>copy.deepcopy\<close> is the identity; the sharing of mutable arguments
  is the subject of the store model further down. The map from full to active labels
  starts as \<open>n\<close> entries \<open>-1\<close>, where \<open>n\<close> is the number of rows of \<open>C_full\<close>, and receives
  \<open>0, 1, ...\<close> at the active labels, with numpy's indexing.
\<close>

definition init ::
  "(real list list \<Rightarrow> string \<Rightarrow> int \<Rightarrow> error + real list) \<Rightarrow>
   label list list \<Rightarrow> string \<Rightarrow> int \<Rightarrow> string \<Rightarrow> label list \<Rightarrow> label list list \<Rightarrow>
   int list list \<Rightarrow> int list list \<Rightarrow> real list list \<Rightarrow> error + EstimatedMSM" where
  "init msm dtrajs dt_traj lag connectivity active_set connected_sets C_full C_active
        transition_matrix =
     (case msm transition_matrix dt_traj lag of
        Inl e \<Rightarrow> Inl e
      | Inr statdist \<Rightarrow>
        (let n = length C_full in
         case np_put (replicate n (- 1)) active_set (map int [0..<length active_set]) of
           Inl e \<Rightarrow> Inl e
         | Inr f2a \<Rightarrow> Inr \<lparr>
             m_transition_matrix = transition_matrix,
             m_stationary_distribution = statdist,
             m_lag = lag,
             m_connectivity = connectivity,
             m_active_set = active_set,
             m_dtrajs_full = dtrajs,
             m_dt_traj = dt_traj,
             m_C_full = C_full,
             m_C_active = C_active,
             m_connected_sets = connected_sets,
             m_nstates_full = n,
             m_full2active = f2a,
             m_is_estimated = True,
             m_dtrajs_active = None,
             m_active_state_indexes = None \<rparr>))"

definition check_is_estimated :: "EstimatedMSM \<Rightarrow> error + unit" where
  "check_is_estimated m = (if m_is_estimated m then Inr () else Inl AssertionError)"

subsection \<open>Basic attributes\<close>

definition guarded :: "EstimatedMSM \<Rightarrow> 'a \<Rightarrow> error + 'a" where
  "guarded m v = (case check_is_estimated m of Inl e \<Rightarrow> Inl e | Inr _ \<Rightarrow> Inr v)"

definition lagtime :: "EstimatedMSM \<Rightarrow> int" where
  "lagtime m = m_lag m"

definition nstates_full :: "EstimatedMSM \<Rightarrow> error + nat" where
  "nstates_full m = guarded m (m_nstates_full m)"

definition active_set :: "EstimatedMSM \<Rightarrow> error + label list" where
  "active_set m = guarded m (m_active_set m)"

definition connectivity :: "EstimatedMSM \<Rightarrow> string" where
  "connectivity m = m_connectivity m"

definition connected_sets :: "EstimatedMSM \<Rightarrow> error + label list list" where
  "connected_sets m = guarded m (m_connected_sets m)"

definition largest_connected_set :: "EstimatedMSM \<Rightarrow> error + label list" where
  "largest_connected_set m =
     (case check_is_estimated m of Inl e \<Rightarrow> Inl e
      | Inr _ \<Rightarrow> (case m_connected_sets m of [] \<Rightarrow> Inl IndexError | c # _ \<Rightarrow> Inr c))"

definition discrete_trajectories_full :: "EstimatedMSM \<Rightarrow> error + label list list" where
  "discrete_trajectories_full m = guarded m (m_dtrajs_full m)"

definition count_matrix_active :: "EstimatedMSM \<Rightarrow> error + int list list" where
  "count_matrix_active m = guarded m (m_C_active m)"

definition count_matrix_full :: "EstimatedMSM \<Rightarrow> error + int list list" where
  "count_matrix_full m = guarded m (m_C_full m)"

text \<open>
  \<open>discrete_trajectories_active\<close> rebuilds the attribute \<open>_dtrajs_active\<close> on every
  access: it is reset to the empty list and receives \<open>full2active[dtraj]\<close> for each full
  trajectory in turn. The loop carries the list built so far.
\<close>

fun map_dtrajs :: "int list \<Rightarrow> label list list \<Rightarrow> int list list \<Rightarrow> error + int list list" where
  "map_dtrajs f2a [] acc = Inr acc"
| "map_dtrajs f2a (dtraj # rest) acc =
     (case np_take f2a dtraj of
        Inl e \<Rightarrow> Inl e
      | Inr d \<Rightarrow> map_dtrajs f2a rest (acc @ [d]))"

definition discrete_trajectories_active ::
  "EstimatedMSM \<Rightarrow> error + (int list list \<times> EstimatedMSM)" where
  "discrete_trajectories_active m =
     (case check_is_estimated m of Inl e \<Rightarrow> Inl e
      | Inr _ \<Rightarrow>
        (case map_dtrajs (m_full2active m) (m_dtrajs_full m) [] of
           Inl e \<Rightarrow> Inl e
         | Inr ds \<Rightarrow> Inr (ds, m\<lparr>m_dtrajs_active := Some ds\<rparr>)))"

subsection \<open>Trajectory weights\<close>

text \<open>
  The first loop of \<open>trajectory_weights\<close>: for each trajectory the weights
  \<open>statdist_full[dtraj]\<close> are appended to \<open>W\<close>, and \<open>np.sum(W)\<close>, the sum over the whole
  list built so far, is added to \<open>wtot\<close>.
\<close>

fun accumulate ::
  "real list \<Rightarrow> label list list \<Rightarrow> real list list \<Rightarrow> real \<Rightarrow> error + (real list list \<times> real)" where
  "accumulate sd [] W wtot = Inr (W, wtot)"
| "accumulate sd (dtraj # rest) W wtot =
     (case np_take sd dtraj of
        Inl e \<Rightarrow> Inl e
      | Inr w \<Rightarrow>
        (case np_sum (W @ [w]) of
           Inl e \<Rightarrow> Inl e
         | Inr s \<Rightarrow> accumulate sd rest (W @ [w]) (wtot + s)))"

text \<open>
  The stationary distribution expanded to the full set of states, then the unnormalised
  weights and their accumulated total: the method up to its second loop.
\<close>

definition raw_weights :: "EstimatedMSM \<Rightarrow> error + (real list list \<times> real)" where
  "raw_weights m =
     (case check_is_estimated m of Inl e \<Rightarrow> Inl e
      | Inr _ \<Rightarrow>
        (case np_put (replicate (m_nstates_full m) 0) (m_active_set m)
                     (m_stationary_distribution m) of
           Inl e \<Rightarrow> Inl e
         | Inr statdist_full \<Rightarrow> accumulate statdist_full (m_dtrajs_full m) [] 0))"

definition trajectory_weights :: "EstimatedMSM \<Rightarrow> error + float64 list list" where
  "trajectory_weights m =
     (case raw_weights m of
        Inl e \<Rightarrow> Inl e
      | Inr (W, wtot) \<Rightarrow> Inr (map (map (\<lambda>w. np_div w wtot)) W))"

text \<open>
  The data model that the callers of the constructor maintain: the object is estimated,
  the stationary distribution has one entry per active state, and the labels of the
  active set and of the trajectories lie in the full label space.
\<close>

definition well_formed :: "EstimatedMSM \<Rightarrow> bool" where
  "well_formed m \<longleftrightarrow>
     m_is_estimated m \<and>
     length (m_stationary_distribution m) = length (m_active_set m) \<and>
     list_all (\<lambda>s. 0 \<le> sint s \<and> sint s < int (m_nstates_full m)) (m_active_set m) \<and>
     list_all (list_all (\<lambda>s. 0 \<le> sint s \<and> sint s < int (m_nstates_full m)))
       (m_dtrajs_full m)"

definition equal_lengths :: "'a list list \<Rightarrow> bool" where
  "equal_lengths ds \<longleftrightarrow> list_all (\<lambda>d. length d = length (hd ds)) ds"

text \<open>
  The sum of the weights over every frame of every trajectory, as long as every weight
  is a number.
\<close>

fun is_finite :: "float64 \<Rightarrow> bool" where
  "is_finite (Finite r) = True"
| "is_finite _ = False"

fun value_of :: "float64 \<Rightarrow> real" where
  "value_of (Finite r) = r"
| "value_of _ = 0"

definition total_weight :: "float64 list list \<Rightarrow> real option" where
  "total_weight R =
     (if list_all (list_all is_finite) R
      then Some (sum_list (map (\<lambda>w. sum_list (map value_of w)) R))
      else None)"

subsection \<open>The table of active state indexes\<close>

text \<open>
  The property \<open>active_state_indexes\<close> returns the attribute \<open>_active_state_indexes\<close>
  when the object has it; otherwise it calls \<open>index_states\<close> of
  \<open>pyemma.util.discrete_trajectories\<close> on the full trajectories and the active set,
  stores the result in the attribute and returns it. That function is not among the
  sources; it is the parameter \<open>ix\<close>, and an exception it raises leaves the accessor
  with the attribute still absent.
\<close>

definition active_state_indexes ::
  "(label list list \<Rightarrow> label list \<Rightarrow> error + (nat \<times> nat) list list) \<Rightarrow> EstimatedMSM \<Rightarrow>
   error + ((nat \<times> nat) list list \<times> EstimatedMSM)" where
  "active_state_indexes ix m =
     (case check_is_estimated m of Inl e \<Rightarrow> Inl e
      | Inr _ \<Rightarrow>
        (case m_active_state_indexes m of
           Some tab \<Rightarrow> Inr (tab, m)
         | None \<Rightarrow>
           (case ix (m_dtrajs_full m) (m_active_set m) of
              Inl e \<Rightarrow> Inl e
            | Inr tab \<Rightarrow> Inr (tab, m\<lparr>m_active_state_indexes := Some tab\<rparr>))))"

subsection \<open>Collaborators outside the sources\<close>

text \<open>
  Modelled from the spec: the superclass \<open>MSM\<close> (\<open>pyemma.msm.models.msm\<close>) and the class
  \<open>TimeUnit\<close> (\<open>pyemma.util.units\<close>) are missing. By the spec a transition matrix is
  square and row-stochastic with non-negative entries, and its stationary distribution
  is the left eigenvector of eigenvalue one that sums to one. When all rows of such a
  matrix are the same vector, that vector is the stationary distribution. The function
  below serves as the parameter \<open>msm\<close> in the examples: it accepts such a matrix with the
  default time step and a positive lag. On anything else it answers AssertionError; the
  examples never use it there, and the general theorems hold for every \<open>msm\<close>.
\<close>

definition equal_rows_msm :: "real list list \<Rightarrow> string \<Rightarrow> int \<Rightarrow> error + real list" where
  "equal_rows_msm P dt_traj lag =
     (if P \<noteq> [] \<and> list_all (\<lambda>r. r = hd P) P \<and> length (hd P) = length P \<and>
         list_all (\<lambda>x. 0 \<le> x) (hd P) \<and> sum_list (hd P) = 1 \<and>
         dt_traj = ''1 step'' \<and> 0 < lag
      then Inr (hd P) else Inl AssertionError)"

text \<open>
  Modelled from the spec: the function \<open>index_states\<close> of
  \<open>pyemma.util.discrete_trajectories\<close> is missing. By the spec (StateIndexMapper) the
  table holds, for every position of the given states, the pairs of trajectory index and
  time index of the frames with that label, ordered by trajectory and then by time. The
  spec's failure for a label outside the full label space is left out, the full label
  space not being among the arguments. The function serves as the parameter \<open>ix\<close> in the
  examples, on labels that occur in the trajectories.
\<close>

definition index_states :: "label list list \<Rightarrow> label list \<Rightarrow> error + (nat \<times> nat) list list" where
  "index_states dtrajs states =
     Inr (map (\<lambda>s. concat (map (\<lambda>(k, d). map (\<lambda>t. (k, t))
                                        (filter (\<lambda>t. d ! t = s) [0..<length d]))
                              (enumerate 0 dtrajs)))
              states)"

text \<open>
  Modelled from the spec: the function \<open>submatrix\<close> of \<open>pyemma.util.linalg\<close> is missing.
  By the spec it takes a matrix and a list of indices and gives the square matrix of the
  entries at those rows and columns, in the order of the list.
\<close>

definition submatrix :: "int list list \<Rightarrow> label list \<Rightarrow> int list list" where
  "submatrix C idx = map (\<lambda>i. map (\<lambda>j. C ! nat (sint i) ! nat (sint j)) idx) idx"

subsection \<open>Arguments as shared objects\<close>

text \<open>
  The constructor receives references to mutable objects: arrays of labels, count
  matrices, and Python lists of arrays. A store holds the objects; an address is a
  position in it, and allocation appends. The constructor keeps \<open>copy.deepcopy\<close> of
  five of them: the active set, the trajectories, the two count matrices and the
  connected sets. The transition matrix goes to the constructor of the superclass; what
  becomes of it there is outside the sources, and it stays a value here, as do the time
  step, the lag and the connectivity mode, which are immutable in Python.
\<close>

type_synonym addr = nat

datatype obj = Labels "label list" | Counts "int list list" | PyList "addr list"

type_synonym store = "obj list"

definition alloc :: "store \<Rightarrow> obj \<Rightarrow> store \<times> addr" where
  "alloc h ob = (h @ [ob], length h)"

text \<open>
  \<open>copy.deepcopy\<close> of an array is a new array with the same contents. For a list it
  copies the items and builds a new list of the copies; an item that occurs twice is
  copied once (the memo of \<open>deepcopy\<close>). The items of the lists at hand are arrays,
  and an item is copied as one object.
\<close>

fun deepcopy_items :: "store \<Rightarrow> (addr \<times> addr) list \<Rightarrow> addr list \<Rightarrow> store \<times> addr list" where
  "deepcopy_items h memo [] = (h, [])"
| "deepcopy_items h memo (a # as) =
     (case map_of memo a of
        Some a' \<Rightarrow> (case deepcopy_items h memo as of (h', as') \<Rightarrow> (h', a' # as'))
      | None \<Rightarrow>
        (case alloc h (h ! a) of (h1, a') \<Rightarrow>
           (case deepcopy_items h1 ((a, a') # memo) as of (h', as') \<Rightarrow> (h', a' # as'))))"

definition deepcopy :: "store \<Rightarrow> addr \<Rightarrow> store \<times> addr" where
  "deepcopy h a =
     (case h ! a of
        PyList items \<Rightarrow>
          (case deepcopy_items h [] items of (h1, items') \<Rightarrow> alloc h1 (PyList items'))
      | ob \<Rightarrow> alloc h ob)"

definition labels_at :: "store \<Rightarrow> addr \<Rightarrow> label list" where
  "labels_at h a = (case h ! a of Labels xs \<Rightarrow> xs | _ \<Rightarrow> [])"

definition counts_at :: "store \<Rightarrow> addr \<Rightarrow> int list list" where
  "counts_at h a = (case h ! a of Counts c \<Rightarrow> c | _ \<Rightarrow> [])"

definition arrays_at :: "store \<Rightarrow> addr \<Rightarrow> label list list" where
  "arrays_at h a = (case h ! a of PyList items \<Rightarrow> map (labels_at h) items | _ \<Rightarrow> [])"

text \<open>
  An address is valid in a store when it is below the length of the store, together with
  the items when the object is a list. An address is fresh from \<open>n\<close> on when it, and the
  items of a list, were allocated at \<open>n\<close> or later.
\<close>

definition valid_ref :: "store \<Rightarrow> addr \<Rightarrow> bool" where
  "valid_ref h a \<longleftrightarrow>
     a < length h \<and>
     (case h ! a of PyList items \<Rightarrow> list_all (\<lambda>x. x < length h) items | _ \<Rightarrow> True)"

definition fresh_ref :: "nat \<Rightarrow> store \<Rightarrow> addr \<Rightarrow> bool" where
  "fresh_ref n h a \<longleftrightarrow>
     n \<le> a \<and> a < length h \<and>
     (case h ! a of
        PyList items \<Rightarrow> list_all (\<lambda>x. n \<le> x \<and> x < length h) items
      | _ \<Rightarrow> True)"

text \<open>
  The object in the store: the addresses of the five copies, and the remaining
  attributes, which are immutable values or arrays that the object creates for itself.
\<close>

record EstimatedMSM_obj =
  r_active_set :: addr
  r_dtrajs_full :: addr
  r_C_full :: addr
  r_C_active :: addr
  r_connected_sets :: addr
  r_attrs :: EstimatedMSM

text \<open>
  What the attributes hold in a given store: the five copies are read through their
  addresses.
\<close>

definition view :: "store \<Rightarrow> EstimatedMSM_obj \<Rightarrow> EstimatedMSM" where
  "view h r = (r_attrs r) \<lparr>
     m_active_set := labels_at h (r_active_set r),
     m_dtrajs_full := arrays_at h (r_dtrajs_full r),
     m_C_full := counts_at h (r_C_full r),
     m_C_active := counts_at h (r_C_active r),
     m_connected_sets := arrays_at h (r_connected_sets r) \<rparr>"

text \<open>
  The constructor on references, in the order of its statements: the superclass
  constructor, the copies of the active set, the trajectories, the two count matrices and
  the connected sets, the number of full states from the argument \<open>C_full\<close>, and the map
  from full to active labels from the copy of the active set.
\<close>

definition init_obj ::
  "(real list list \<Rightarrow> string \<Rightarrow> int \<Rightarrow> error + real list) \<Rightarrow> store \<Rightarrow>
   addr \<Rightarrow> string \<Rightarrow> int \<Rightarrow> string \<Rightarrow> addr \<Rightarrow> addr \<Rightarrow> addr \<Rightarrow> addr \<Rightarrow> real list list \<Rightarrow>
   error + (store \<times> EstimatedMSM_obj)" where
  "init_obj msm h dtrajs_ref dt_traj lag conn active_set_ref connected_sets_ref
        C_full_ref C_active_ref transition_matrix =
     (case msm transition_matrix dt_traj lag of
        Inl e \<Rightarrow> Inl e
      | Inr statdist \<Rightarrow>
        (case deepcopy h active_set_ref of (h1, a_active) \<Rightarrow>
         case deepcopy h1 dtrajs_ref of (h2, a_dtrajs) \<Rightarrow>
         case deepcopy h2 C_full_ref of (h3, a_full) \<Rightarrow>
         case deepcopy h3 C_active_ref of (h4, a_act) \<Rightarrow>
         case deepcopy h4 connected_sets_ref of (h5, a_sets) \<Rightarrow>
         (let n = length (counts_at h5 C_full_ref) in
          case np_put (replicate n (- 1)) (labels_at h5 a_active)
                      (map int [0..<length (labels_at h5 a_active)]) of
            Inl e \<Rightarrow> Inl e
          | Inr f2a \<Rightarrow> Inr (h5, \<lparr>
              r_active_set = a_active,
              r_dtrajs_full = a_dtrajs,
              r_C_full = a_full,
              r_C_active = a_act,
              r_connected_sets = a_sets,
              r_attrs = \<lparr>
                m_transition_matrix = transition_matrix,
                m_stationary_distribution = statdist,
                m_lag = lag,
                m_connectivity = conn,
                m_active_set = [],
                m_dtrajs_full = [],
                m_dt_traj = dt_traj,
                m_C_full = [],
                m_C_active = [],
                m_connected_sets = [],
                m_nstates_full = n,
                m_full2active = f2a,
                m_is_estimated = True,
                m_dtrajs_active = None,
                m_active_state_indexes = None \<rparr> \<rparr>))))"

subsection \<open>Example models\<close>

text \<open>
  Two trajectories over five full states, of which \<open>0\<close>, \<open>2\<close> and \<open>4\<close> are active; the
  full count matrix holds the transition counts of the trajectories at lag one.
\<close>

definition example_model :: EstimatedMSM where
  "example_model = \<lparr>
     m_transition_matrix = [[1/2, 1/4, 1/4], [1/2, 1/4, 1/4], [1/2, 1/4, 1/4]],
     m_stationary_distribution = [1/2, 1/4, 1/4],
     m_lag = 1,
     m_connectivity = ''largest'',
     m_active_set = [0, 2, 4],
     m_dtrajs_full = [[0, 2, 4, 1], [2, 3]],
     m_dt_traj = ''1 step'',
     m_C_full = [[0,0,1,0,0],[0,0,0,0,0],[0,0,0,1,1],[0,0,0,0,0],[0,1,0,0,0]],
     m_C_active = [[0,1,0],[0,0,1],[0,0,0]],
     m_connected_sets = [[0, 2, 4], [1], [3]],
     m_nstates_full = 5,
     m_full2active = [0, - 1, 1, - 1, 2],
     m_is_estimated = True,
     m_dtrajs_active = None,
     m_active_state_indexes = None \<rparr>"

text \<open>What the constructor builds from an active set that names a label twice.\<close>

definition duplicate_model :: EstimatedMSM where
  "duplicate_model = \<lparr>
     m_transition_matrix = [[1/2, 1/2], [1/2, 1/2]],
     m_stationary_distribution = [1/2, 1/2],
     m_lag = 1,
     m_connectivity = ''largest'',
     m_active_set = [0, 0],
     m_dtrajs_full = [[0, 1, 0]],
     m_dt_traj = ''1 step'',
     m_C_full = [[0, 1], [1, 0]],
     m_C_active = [[0, 1], [1, 0]],
     m_connected_sets = [[0, 1]],
     m_nstates_full = 2,
     m_full2active = [1, - 1],
     m_is_estimated = True,
     m_dtrajs_active = None,
     m_active_state_indexes = None \<rparr>"

text \<open>What the constructor builds from the active set \<open>[-1]\<close> over two full states.\<close>

definition negative_label_model :: EstimatedMSM where
  "negative_label_model = \<lparr>
     m_transition_matrix = [[1]],
     m_stationary_distribution = [1],
     m_lag = 1,
     m_connectivity = ''largest'',
     m_active_set = [- 1],
     m_dtrajs_full = [[0, 1]],
     m_dt_traj = ''1 step'',
     m_C_full = [[0, 1], [0, 0]],
     m_C_active = [[0]],
     m_connected_sets = [[0, 1]],
     m_nstates_full = 2,
     m_full2active = [- 1, 0],
     m_is_estimated = True,
     m_dtrajs_active = None,
     m_active_state_indexes = None \<rparr>"

text \<open>Two trajectories of equal length over two states, both active.\<close>

definition two_traj_model :: EstimatedMSM where
  "two_traj_model = \<lparr>
     m_transition_matrix = [[1/2, 1/2], [1/2, 1/2]],
     m_stationary_distribution = [1/2, 1/2],
     m_lag = 1,
     m_connectivity = ''largest'',
     m_active_set = [0, 1],
     m_dtrajs_full = [[0, 1], [1, 0]],
     m_dt_traj = ''1 step'',
     m_C_full = [[0, 1], [1, 0]],
     m_C_active = [[0, 1], [1, 0]],
     m_connected_sets = [[0, 1]],
     m_nstates_full = 2,
     m_full2active = [0, 1],
     m_is_estimated = True,
     m_dtrajs_active = None,
     m_active_state_indexes = None \<rparr>"

text \<open>A single trajectory that stays in a state outside the active set.\<close>

definition unvisited_model :: EstimatedMSM where
  "unvisited_model = \<lparr>
     m_transition_matrix = [[1/2, 1/2], [1/2, 1/2]],
     m_stationary_distribution = [1/2, 1/2],
     m_lag = 1,
     m_connectivity = ''largest'',
     m_active_set = [0, 1],
     m_dtrajs_full = [[2, 2]],
     m_dt_traj = ''1 step'',
     m_C_full = [[0, 0, 0], [0, 0, 0], [0, 0, 1]],
     m_C_active = [[0, 0], [0, 0]],
     m_connected_sets = [[0, 1], [2]],
     m_nstates_full = 3,
     m_full2active = [0, 1, - 1],
     m_is_estimated = True,
     m_dtrajs_active = None,
     m_active_state_indexes = None \<rparr>"

text \<open>Two trajectories of one frame each, both outside the active set.\<close>

definition outside_model :: EstimatedMSM where
  "outside_model = \<lparr>
     m_transition_matrix = [[1]],
     m_stationary_distribution = [1],
     m_lag = 1,
     m_connectivity = ''largest'',
     m_active_set = [0],
     m_dtrajs_full = [[1], [2]],
     m_dt_traj = ''1 step'',
     m_C_full = [[0, 0, 0], [0, 0, 0], [0, 0, 0]],
     m_C_active = [[0]],
     m_connected_sets = [[0], [1], [2]],
     m_nstates_full = 3,
     m_full2active = [0, - 1, - 1],
     m_is_estimated = True,
     m_dtrajs_active = None,
     m_active_state_indexes = None \<rparr>"

text \<open>
  Two trajectories of equal length over three full states, of which \<open>0\<close> and \<open>1\<close> are
  active.
\<close>

definition weights_model :: EstimatedMSM where
  "weights_model = \<lparr>
     m_transition_matrix = [[1/2, 1/2], [1/2, 1/2]],
     m_stationary_distribution = [1/2, 1/2],
     m_lag = 1,
     m_connectivity = ''largest'',
     m_active_set = [0, 1],
     m_dtrajs_full = [[0, 2], [0, 1]],
     m_dt_traj = ''1 step'',
     m_C_full = [[0, 1, 1], [0, 0, 0], [0, 0, 0]],
     m_C_active = [[0, 1], [0, 0]],
     m_connected_sets = [[0, 1], [2]],
     m_nstates_full = 3,
     m_full2active = [0, 1, - 1],
     m_is_estimated = True,
     m_dtrajs_active = None,
     m_active_state_indexes = None \<rparr>"

text \<open>A trajectory with the label \<open>2\<close> where the full count matrix has two rows.\<close>

definition out_of_range_model :: EstimatedMSM where
  "out_of_range_model = \<lparr>
     m_transition_matrix = [[1/2, 1/2], [1/2, 1/2]],
     m_stationary_distribution = [1/2, 1/2],
     m_lag = 1,
     m_connectivity = ''largest'',
     m_active_set = [0, 1],
     m_dtrajs_full = [[0, 1, 2]],
     m_dt_traj = ''1 step'',
     m_C_full = [[0, 1], [0, 0]],
     m_C_active = [[0, 1], [0, 0]],
     m_connected_sets = [[0, 1]],
     m_nstates_full = 2,
     m_full2active = [0, 1],
     m_is_estimated = True,
     m_dtrajs_active = None,
     m_active_state_indexes = None \<rparr>"

text \<open>An active count matrix that is not the restriction of the full one.\<close>

definition inconsistent_counts_model :: EstimatedMSM where
  "inconsistent_counts_model = \<lparr>
     m_transition_matrix = [[1/2, 1/2], [1/2, 1/2]],
     m_stationary_distribution = [1/2, 1/2],
     m_lag = 1,
     m_connectivity = ''largest'',
     m_active_set = [0, 1],
     m_dtrajs_full = [[0, 1, 0]],
     m_dt_traj = ''1 step'',
     m_C_full = [[0, 1], [1, 0]],
     m_C_active = [[5, 5], [5, 5]],
     m_connected_sets = [[0, 1]],
     m_nstates_full = 2,
     m_full2active = [0, 1],
     m_is_estimated = True,
     m_dtrajs_active = None,
     m_active_state_indexes = None \<rparr>"

subsection \<open>Example stores\<close>

text \<open>
  A store with the arguments of the example model: the active set at address \<open>0\<close>, the
  list of trajectories at \<open>3\<close>, the count matrices at \<open>4\<close> and \<open>5\<close>, the list of connected
  sets at \<open>8\<close>.
\<close>

definition argument_store :: store where
  "argument_store =
     [Labels [0, 2, 4], Labels [0, 2, 4, 1], Labels [2, 3], PyList [1, 2],
      Counts [[0,0,1,0,0],[0,0,0,0,0],[0,0,0,1,1],[0,0,0,0,0],[0,1,0,0,0]],
      Counts [[0,1,0],[0,0,1],[0,0,0]],
      Labels [1], Labels [3], PyList [0, 6, 7]]"

text \<open>The store after the constructor has run, and the object it has built.\<close>

definition built_store :: store where
  "built_store = argument_store @
     [Labels [0, 2, 4], Labels [0, 2, 4, 1], Labels [2, 3], PyList [10, 11],
      Counts [[0,0,1,0,0],[0,0,0,0,0],[0,0,0,1,1],[0,0,0,0,0],[0,1,0,0,0]],
      Counts [[0,1,0],[0,0,1],[0,0,0]],
      Labels [0, 2, 4], Labels [1], Labels [3], PyList [15, 16, 17]]"

definition built_object :: EstimatedMSM_obj where
  "built_object = \<lparr>
     r_active_set = 9, r_dtrajs_full = 12, r_C_full = 13, r_C_active = 14,
     r_connected_sets = 18,
     r_attrs = example_model \<lparr>m_active_set := [], m_dtrajs_full := [], m_C_full := [],
                 m_C_active := [], m_connected_sets := []\<rparr> \<rparr>"

text \<open>
  The caller then overwrites every argument: the active set, a trajectory, the list of
  trajectories, both count matrices, a connected set and the list of connected sets.
\<close>

definition mutated_store :: store where
  "mutated_store = built_store
     [0 := Labels [1, 3], 1 := Labels [4, 4, 4, 4], 3 := PyList [2],
      4 := Counts [[7]], 5 := Counts [], 6 := Labels [0], 8 := PyList []]"

section \<open>Properties\<close>

subsection \<open>Index arrays\<close>

lemmas numpy_defs = np_put_def np_take_def np_sum_def np_div_def in_bounds_def wrap_def

lemma fold_upd_length:
  "length (fold (\<lambda>(i, v) b. b[g i := v]) kvs a) = length a"
  by (induction kvs arbitrary: a) (auto split: prod.splits)

lemma fold_upd_other:
  "k \<notin> g ` set (map fst kvs) \<Longrightarrow> fold (\<lambda>(i, v) b. b[g i := v]) kvs a ! k = a ! k"
  by (induction kvs arbitrary: a) (auto split: prod.splits)

lemma fold_upd_hit:
  "length ks = length vs \<Longrightarrow> distinct (map g ks) \<Longrightarrow> \<forall>k \<in> set ks. g k < length a \<Longrightarrow>
   i < length ks \<Longrightarrow>
   fold (\<lambda>(i, v) b. b[g i := v]) (zip ks vs) a ! g (ks ! i) = vs ! i"
proof (induction ks vs arbitrary: a i rule: list_induct2)
  case Nil
  then show ?case by simp
next
  case (Cons k ks v vs)
  show ?case
  proof (cases i)
    case 0
    have "g k \<notin> g ` set (map fst (zip ks vs))"
      using Cons.prems(1) Cons.hyps by auto
    then show ?thesis
      using 0 Cons.prems by (simp add: fold_upd_other)
  next
    case (Suc j)
    then show ?thesis
      using Cons.prems Cons.IH [of "a[g k := v]" j] by simp
  qed
qed

lemma wrap_nonneg: "0 \<le> sint s \<Longrightarrow> wrap n s = nat (sint s)"
  by (simp add: wrap_def)

lemma in_bounds_nonneg: "0 \<le> sint s \<Longrightarrow> in_bounds n s \<longleftrightarrow> nat (sint s) < n"
  by (auto simp: in_bounds_def)

lemma nat_sint_inject:
  assumes "0 \<le> sint s" and "0 \<le> sint r" and "nat (sint s) = nat (sint r)"
  shows "s = (r :: label)"
proof -
  from assms have "sint s = sint r" by simp
  then show ?thesis by (rule signed_word_eqI)
qed

lemma np_put_length: "np_put a idx vals = Inr b \<Longrightarrow> length b = length a"
  by (auto simp: np_put_def fold_upd_length split: if_splits)

lemma np_put_bounds: "np_put a idx vals = Inr b \<Longrightarrow> list_all (in_bounds (length a)) idx"
  by (auto simp: np_put_def split: if_splits)

lemma np_put_succeeds:
  assumes "length vals = length idx" and "\<forall>s \<in> set idx. in_bounds (length a) s"
  shows "\<exists>b. np_put a idx vals = Inr b"
  using assms by (simp add: np_put_def list_all_iff)

text \<open>A position that no index addresses keeps its value.\<close>

lemma np_put_other:
  assumes "np_put a idx vals = Inr b" and "\<forall>s \<in> set idx. 0 \<le> sint s"
    and "0 \<le> sint s" and "s \<notin> set idx"
  shows "b ! nat (sint s) = a ! nat (sint s)"
proof -
  let ?kvs = "zip idx (if length vals = length idx then vals else replicate (length idx) (hd vals))"
  have b: "b = fold (\<lambda>(i, v) b. b[wrap (length a) i := v]) ?kvs a"
    using assms(1) by (auto simp: np_put_def split: if_splits)
  have "set (map fst ?kvs) \<subseteq> set idx"
    by (auto dest: set_zip_leftD)
  moreover have "nat (sint s) \<notin> wrap (length a) ` set idx"
  proof
    assume "nat (sint s) \<in> wrap (length a) ` set idx"
    then obtain r where r: "r \<in> set idx" "nat (sint s) = wrap (length a) r" by blast
    with assms(2) have "nat (sint s) = nat (sint r)" "0 \<le> sint r" by (auto simp: wrap_nonneg)
    with assms(3) have "s = r" by (intro nat_sint_inject)
    with r(1) assms(4) show False by simp
  qed
  ultimately have "nat (sint s) \<notin> wrap (length a) ` set (map fst ?kvs)" by blast
  then show ?thesis unfolding b by (rule fold_upd_other)
qed

text \<open>With distinct, non-negative indices every index receives its own value.\<close>

lemma np_put_hit:
  assumes "np_put a idx vals = Inr b" and "\<forall>s \<in> set idx. 0 \<le> sint s" and "distinct idx"
    and "length vals = length idx" and "i < length idx"
  shows "b ! nat (sint (idx ! i)) = vals ! i"
proof -
  have b: "b = fold (\<lambda>(i, v) b. b[wrap (length a) i := v]) (zip idx vals) a"
    using assms(1,4) by (auto simp: np_put_def split: if_splits)
  have bounds: "\<forall>k \<in> set idx. wrap (length a) k < length a"
    using np_put_bounds [OF assms(1)] assms(2)
    by (auto simp: list_all_iff wrap_nonneg in_bounds_nonneg)
  have "inj_on (wrap (length a)) (set idx)"
  proof (rule inj_onI)
    fix x y assume "x \<in> set idx" "y \<in> set idx" "wrap (length a) x = wrap (length a) y"
    moreover from this assms(2) have "0 \<le> sint x" "0 \<le> sint y" by auto
    ultimately show "x = y" by (intro nat_sint_inject) (simp_all add: wrap_nonneg)
  qed
  then have d: "distinct (map (wrap (length a)) idx)"
    using assms(3) by (simp add: distinct_map)
  have "b ! wrap (length a) (idx ! i) = vals ! i"
    unfolding b using assms(4) d bounds assms(5) by (intro fold_upd_hit) auto
  moreover have "0 \<le> sint (idx ! i)" using assms(2,5) by simp
  ultimately show ?thesis by (simp add: wrap_nonneg)
qed

subsection \<open>Construction\<close>

lemma init_example:
  "init equal_rows_msm [[0, 2, 4, 1], [2, 3]] ''1 step'' 1 ''largest'' [0, 2, 4]
        [[0, 2, 4], [1], [3]]
        [[0,0,1,0,0],[0,0,0,0,0],[0,0,0,1,1],[0,0,0,0,0],[0,1,0,0,0]]
        [[0,1,0],[0,0,1],[0,0,0]]
        [[1/2, 1/4, 1/4], [1/2, 1/4, 1/4], [1/2, 1/4, 1/4]]
   = Inr example_model"
  by (simp add: init_def equal_rows_msm_def numpy_defs example_model_def
        eval_nat_numeral upt_rec)

lemma init_succeeds_iff:
  "(\<exists>m. init msm dtrajs dt_traj lag conn acts csets C_full C_active P = Inr m) \<longleftrightarrow>
   (\<exists>statdist. msm P dt_traj lag = Inr statdist) \<and> list_all (in_bounds (length C_full)) acts"
  by (auto simp: init_def np_put_def Let_def split: sum.splits)

text \<open>
  Claim C3, as the code has it. When the superclass constructor accepts its arguments
  and the active set consists of distinct labels of the full label space
  \<open>0, ..., n - 1\<close>, the constructor builds a model, and its map from full to active
  labels has one entry per full state, sends the \<open>i\<close>-th active label to \<open>i\<close> and every
  other full label to \<open>-1\<close>; for the active set \<open>[0, 2, 4]\<close> among five full states it is
  \<open>[0, -1, 1, -1, 2]\<close>.
\<close>

theorem full2active_invariant:
  assumes "msm P dt_traj lag = Inr statdist"
    and "distinct acts"
    and "\<forall>s \<in> set acts. 0 \<le> sint s \<and> sint s < int (length C_full)"
  shows "\<exists>m. init msm dtrajs dt_traj lag conn acts csets C_full C_active P = Inr m \<and>
           length (m_full2active m) = length C_full \<and>
           (\<forall>i < length acts. m_full2active m ! nat (sint (acts ! i)) = int i) \<and>
           (\<forall>s. 0 \<le> sint s \<and> sint s < int (length C_full) \<and> s \<notin> set acts \<longrightarrow>
                m_full2active m ! nat (sint s) = - 1) \<and>
           (acts = [0, 2, 4] \<and> length C_full = 5 \<longrightarrow>
                m_full2active m = [0, - 1, 1, - 1, 2])"
proof -
  let ?n = "length C_full"
  have nonneg: "\<forall>s \<in> set acts. 0 \<le> sint s" using assms(3) by blast
  have "\<forall>s \<in> set acts. in_bounds (length (replicate ?n (- 1 :: int))) s"
    using assms(3) by (auto simp: in_bounds_def)
  then obtain f where put:
    "np_put (replicate ?n (- 1)) acts (map int [0..<length acts]) = Inr f"
    using np_put_succeeds [of "map int [0..<length acts]" acts "replicate ?n (- 1)"] by auto
  define m where "m = \<lparr>
     m_transition_matrix = P, m_stationary_distribution = statdist, m_lag = lag,
     m_connectivity = conn, m_active_set = acts, m_dtrajs_full = dtrajs,
     m_dt_traj = dt_traj, m_C_full = C_full, m_C_active = C_active,
     m_connected_sets = csets, m_nstates_full = ?n, m_full2active = f,
     m_is_estimated = True, m_dtrajs_active = None, m_active_state_indexes = None \<rparr>"
  have built: "init msm dtrajs dt_traj lag conn acts csets C_full C_active P = Inr m"
    using assms(1) put by (simp add: init_def m_def)
  have f: "m_full2active m = f" by (simp add: m_def)
  have len: "length f = ?n"
    using np_put_length [OF put] by simp
  have hit: "f ! nat (sint (acts ! i)) = int i" if "i < length acts" for i
    using np_put_hit [OF put nonneg assms(2) _ that] that by simp
  have miss: "f ! nat (sint s) = - 1"
    if "0 \<le> sint s" "sint s < int ?n" "s \<notin> set acts" for s
    using np_put_other [OF put nonneg that(1,3)] that(1,2) by simp
  have scen: "f = [0, - 1, 1, - 1, 2]" if "acts = [0, 2, 4]" "?n = 5"
    using put that
    by (simp add: numpy_defs eval_nat_numeral upt_rec)
  from built len hit miss scen show ?thesis unfolding f [symmetric] by blast
qed

text \<open>
  Claim C5, as the code has it. Once the superclass constructor has accepted its
  arguments, the constructor fails with numpy's IndexError exactly when some label of the
  active set is at least the number \<open>n\<close> of full states or below \<open>-n\<close>; it fails while
  it builds the map, so that neither a model nor an index table comes to exist. With
  every label in \<open>-n, ..., n - 1\<close> a model is built. On a model that was built, the table
  of active state indexes is what \<open>index_states\<close> makes of the trajectories and the active
  set: the accessor checks no range itself and fails only as that function fails.
\<close>

theorem init_index_error:
  assumes "msm P dt_traj lag = Inr statdist"
  shows "(init msm dtrajs dt_traj lag conn acts csets C_full C_active P = Inl IndexError \<longleftrightarrow>
            (\<exists>s \<in> set acts. int (length C_full) \<le> sint s \<or> sint s < - int (length C_full))) \<and>
         ((\<forall>s \<in> set acts. - int (length C_full) \<le> sint s \<and> sint s < int (length C_full)) \<longrightarrow>
            (\<exists>m. init msm dtrajs dt_traj lag conn acts csets C_full C_active P = Inr m)) \<and>
         (\<forall>m. init msm dtrajs dt_traj lag conn acts csets C_full C_active P = Inr m \<longrightarrow>
            active_state_indexes ix m =
              (case ix dtrajs acts of
                 Inl e \<Rightarrow> Inl e
               | Inr tab \<Rightarrow> Inr (tab, m\<lparr>m_active_state_indexes := Some tab\<rparr>)))"
proof -
  let ?n = "length C_full"
  let ?bad = "\<exists>s \<in> set acts. int ?n \<le> sint s \<or> sint s < - int ?n"
  have bounds: "list_all (in_bounds ?n) acts \<longleftrightarrow> \<not> ?bad"
    by (auto simp: list_all_iff in_bounds_def)
  have fails: "init msm dtrajs dt_traj lag conn acts csets C_full C_active P = Inl IndexError"
    if ?bad
    using that assms bounds by (simp add: init_def np_put_def)
  have builds: "\<exists>m. init msm dtrajs dt_traj lag conn acts csets C_full C_active P = Inr m"
    if "\<not> ?bad"
    using that assms bounds init_succeeds_iff [of msm dtrajs dt_traj lag conn acts csets C_full
        C_active P]
    by blast
  have iff: "init msm dtrajs dt_traj lag conn acts csets C_full C_active P = Inl IndexError
               \<longleftrightarrow> ?bad"
  proof
    assume failed: "init msm dtrajs dt_traj lag conn acts csets C_full C_active P = Inl IndexError"
    show ?bad
    proof (rule ccontr)
      assume "\<not> ?bad"
      from builds [OF this] failed show False by simp
    qed
  next
    assume ?bad
    then show "init msm dtrajs dt_traj lag conn acts csets C_full C_active P = Inl IndexError"
      by (rule fails)
  qed
  have nobad: "\<not> ?bad"
    if "\<forall>s \<in> set acts. - int ?n \<le> sint s \<and> sint s < int ?n"
    using that by fastforce
  have table: "active_state_indexes ix m =
              (case ix dtrajs acts of
                 Inl e \<Rightarrow> Inl e
               | Inr tab \<Rightarrow> Inr (tab, m\<lparr>m_active_state_indexes := Some tab\<rparr>))"
    if "init msm dtrajs dt_traj lag conn acts csets C_full C_active P = Inr m" for m
  proof -
    from that have "m_is_estimated m" "m_active_state_indexes m = None"
      "m_dtrajs_full m = dtrajs" "m_active_set m = acts"
      by (auto simp: init_def Let_def split: sum.splits)
    then show ?thesis
      by (simp add: active_state_indexes_def check_is_estimated_def)
  qed
  from iff builds nobad table show ?thesis by blast
qed

theorem full2active_invariant_witness:
  "equal_rows_msm [[1/2, 1/4, 1/4], [1/2, 1/4, 1/4], [1/2, 1/4, 1/4]] ''1 step'' 1
     = Inr [1/2, 1/4, 1/4] \<and>
   distinct [0, 2, 4 :: label] \<and>
   list_all (\<lambda>s. 0 \<le> sint s \<and> sint s < 5) [0, 2, 4 :: label] \<and>
   init equal_rows_msm [[0, 2, 4, 1], [2, 3]] ''1 step'' 1 ''largest'' [0, 2, 4]
        [[0, 2, 4], [1], [3]]
        [[0,0,1,0,0],[0,0,0,0,0],[0,0,0,1,1],[0,0,0,0,0],[0,1,0,0,0]]
        [[0,1,0],[0,0,1],[0,0,0]]
        [[1/2, 1/4, 1/4], [1/2, 1/4, 1/4], [1/2, 1/4, 1/4]]
     = Inr example_model \<and>
   m_full2active example_model = [0, - 1, 1, - 1, 2]"
proof -
  let ?P = "[[1/2, 1/4, 1/4], [1/2, 1/4, 1/4], [1/2, 1/4, 1/4 :: real]]"
  let ?C = "[[0,0,1,0,0],[0,0,0,0,0],[0,0,0,1,1],[0,0,0,0,0],[0,1,0,0,0 :: int]]"
  have p: "equal_rows_msm ?P ''1 step'' 1 = Inr [1/2, 1/4, 1/4]"
    by (simp add: equal_rows_msm_def)
  have d: "distinct [0, 2, 4 :: label]" by simp
  have r: "\<forall>s \<in> set [0, 2, 4 :: label]. 0 \<le> sint s \<and> sint s < int (length ?C)" by simp
  from full2active_invariant [where msm = equal_rows_msm and P = ?P and dt_traj = "''1 step''"
      and lag = 1 and acts = "[0, 2, 4]" and C_full = ?C and dtrajs = "[[0, 2, 4, 1], [2, 3]]"
      and conn = "''largest''" and csets = "[[0, 2, 4], [1], [3]]"
      and C_active = "[[0,1,0],[0,0,1],[0,0,0]]", OF p d r]
  obtain m where "init equal_rows_msm [[0, 2, 4, 1], [2, 3]] ''1 step'' 1 ''largest'' [0, 2, 4]
        [[0, 2, 4], [1], [3]] ?C [[0,1,0],[0,0,1],[0,0,0]] ?P = Inr m"
    and "m_full2active m = [0, - 1, 1, - 1, 2]"
    by auto
  with init_example have "m_full2active example_model = [0, - 1, 1, - 1, 2]" by simp
  with p init_example show ?thesis by simp
qed

text \<open>
  Without distinct labels the invariant fails: the active set \<open>[0, 0]\<close> over two full
  states is accepted, and the map sends its first label to \<open>1\<close>. So it does with a
  negative label: the active set \<open>[-1]\<close> over two full states is accepted, and the map
  sends the full label \<open>1\<close>, which is not in the active set, to \<open>0\<close>.
\<close>

theorem full2active_duplicate_label:
  "init equal_rows_msm [[0, 1, 0]] ''1 step'' 1 ''largest'' [0, 0] [[0, 1]]
        [[0, 1], [1, 0]] [[0, 1], [1, 0]] [[1/2, 1/2], [1/2, 1/2]]
     = Inr duplicate_model \<and>
   m_full2active duplicate_model ! nat (sint ([0, 0 :: label] ! 0)) = 1 \<and>
   init equal_rows_msm [[0, 1]] ''1 step'' 1 ''largest'' [- 1] [[0, 1]]
        [[0, 1], [0, 0]] [[0]] [[1]] = Inr negative_label_model \<and>
   (1 :: label) \<notin> set (m_active_set negative_label_model) \<and>
   m_full2active negative_label_model ! nat (sint (1 :: label)) = 0"
  by (simp add: init_def equal_rows_msm_def numpy_defs duplicate_model_def
        negative_label_model_def eval_nat_numeral)

theorem init_index_error_witness:
  "equal_rows_msm [[1]] ''1 step'' 1 = Inr [1] \<and>
   init equal_rows_msm [[0, 1]] ''1 step'' 1 ''largest'' [2] [[0, 1]]
        [[0, 1], [0, 0]] [[0]] [[1]] = Inl IndexError \<and>
   active_state_indexes index_states example_model =
     Inr ([[(0, 0)], [(0, 1), (1, 0)], [(0, 2)]],
          example_model\<lparr>m_active_state_indexes :=
             Some [[(0, 0)], [(0, 1), (1, 0)], [(0, 2)]]\<rparr>)"
proof -
  have p: "equal_rows_msm [[1]] ''1 step'' 1 = Inr [1]"
    by (simp add: equal_rows_msm_def)
  have bad: "\<exists>s \<in> set [2 :: label]. int (length [[0, 1], [0, 0 :: int]]) \<le> sint s
       \<or> sint s < - int (length [[0, 1], [0, 0 :: int]])" by simp
  from init_index_error [where msm = equal_rows_msm and P = "[[1]]" and dt_traj = "''1 step''"
      and lag = 1 and acts = "[2]" and C_full = "[[0, 1], [0, 0]]" and dtrajs = "[[0, 1]]"
      and conn = "''largest''" and csets = "[[0, 1]]" and C_active = "[[0]]", OF p] bad
  have a: "init equal_rows_msm [[0, 1]] ''1 step'' 1 ''largest'' [2] [[0, 1]]
        [[0, 1], [0, 0]] [[0]] [[1]] = Inl IndexError"
    by blast
  have q: "equal_rows_msm [[1/2, 1/4, 1/4], [1/2, 1/4, 1/4], [1/2, 1/4, 1/4]] ''1 step'' 1
     = Inr [1/2, 1/4, 1/4]"
    by (simp add: equal_rows_msm_def)
  have ix: "index_states [[0, 2, 4, 1], [2, 3]] [0, 2, 4]
     = Inr [[(0, 0)], [(0, 1), (1, 0)], [(0, 2)]]"
    by code_simp
  from init_index_error [where msm = equal_rows_msm
      and P = "[[1/2, 1/4, 1/4], [1/2, 1/4, 1/4], [1/2, 1/4, 1/4]]" and dt_traj = "''1 step''"
      and lag = 1 and ix = index_states, OF q] init_example
  have "active_state_indexes index_states example_model =
     (case index_states [[0, 2, 4, 1], [2, 3]] [0, 2, 4] of
        Inl e \<Rightarrow> Inl e
      | Inr tab \<Rightarrow> Inr (tab, example_model\<lparr>m_active_state_indexes := Some tab\<rparr>))"
    by blast
  with ix p a show ?thesis by simp
qed

text \<open>
  A label in \<open>-n, ..., -1\<close> is outside the full label space and yet accepted: with two
  full states the active set \<open>[-1]\<close> builds a model, and the label addresses the last
  full state.
\<close>

theorem init_negative_label_accepted:
  "sint (- 1 :: label) \<notin> {0 ..< 2} \<and>
   init equal_rows_msm [[0, 1]] ''1 step'' 1 ''largest'' [- 1] [[0, 1]]
        [[0, 1], [0, 0]] [[0]] [[1]] = Inr negative_label_model"
  by (simp add: init_def equal_rows_msm_def numpy_defs negative_label_model_def eval_nat_numeral)

subsection \<open>Trajectory weights\<close>

lemmas weights_defs = raw_weights_def trajectory_weights_def check_is_estimated_def

text \<open>
  Claim C1 fails on the code. The total \<open>wtot\<close> receives \<open>np.sum(W)\<close>, the sum over all
  trajectories read so far, where the sum over the current trajectory is due. With two
  trajectories \<open>[0, 1]\<close> and \<open>[1, 0]\<close> and the stationary distribution \<open>[1/2, 1/2]\<close> the
  total is \<open>1 + 2 = 3\<close>, every frame receives the weight \<open>1/6\<close>, and the four weights sum
  to \<open>2/3\<close>. With the trajectories of the example model, of four and of two frames, the
  list \<open>W\<close> is ragged and the call raises ValueError.
\<close>

theorem trajectory_weights_two_trajectories:
  "init equal_rows_msm [[0, 1], [1, 0]] ''1 step'' 1 ''largest'' [0, 1] [[0, 1]]
        [[0, 1], [1, 0]] [[0, 1], [1, 0]] [[1/2, 1/2], [1/2, 1/2]] = Inr two_traj_model \<and>
   trajectory_weights two_traj_model =
     Inr [[Finite (1/6), Finite (1/6)], [Finite (1/6), Finite (1/6)]] \<and>
   total_weight [[Finite (1/6), Finite (1/6)], [Finite (1/6), Finite (1/6)]] = Some (2/3) \<and>
   trajectory_weights example_model = Inl ValueError"
  by (simp add: init_def equal_rows_msm_def numpy_defs weights_defs two_traj_model_def
        example_model_def total_weight_def eval_nat_numeral)

lemma accumulate_shape:
  "accumulate sd ds W wtot = Inr (W', t) \<Longrightarrow>
   length W' = length W + length ds \<and> take (length W) W' = W \<and>
   (\<forall>i < length ds. np_take sd (ds ! i) = Inr (W' ! (length W + i)))"
proof (induction ds arbitrary: W wtot)
  case Nil
  then show ?case by simp
next
  case (Cons d ds)
  from Cons.prems obtain w s where w: "np_take sd d = Inr w"
    and s: "np_sum (W @ [w]) = Inr s"
    and rest: "accumulate sd ds (W @ [w]) (wtot + s) = Inr (W', t)"
    by (auto split: sum.splits)
  from Cons.IH [OF rest] have len: "length W' = length W + 1 + length ds"
    and tk: "take (length W + 1) W' = W @ [w]"
    and nth: "\<forall>i < length ds. np_take sd (ds ! i) = Inr (W' ! (length W + 1 + i))"
    by simp_all
  from tk have tk': "take (length W) W' = W"
    by (metis append_eq_conv_conj take_take le_add1 min_absorb1)
  from tk have "W' ! length W = w"
    by (metis nth_take lessI nth_append_length Suc_eq_plus1)
  with w nth have "np_take sd ((d # ds) ! i) = Inr (W' ! (length W + i))"
    if "i < length (d # ds)" for i
    using that by (cases i) auto
  with len tk' show ?case by simp
qed

lemma raw_weights_shape:
  assumes "raw_weights m = Inr (W, wtot)"
  obtains sdf where "np_put (replicate (m_nstates_full m) 0) (m_active_set m)
                       (m_stationary_distribution m) = Inr sdf"
    and "accumulate sdf (m_dtrajs_full m) [] 0 = Inr (W, wtot)"
    and "length W = length (m_dtrajs_full m)"
    and "\<forall>i < length (m_dtrajs_full m). np_take sdf (m_dtrajs_full m ! i) = Inr (W ! i)"
proof -
  from assms obtain sdf where
    put: "np_put (replicate (m_nstates_full m) 0) (m_active_set m)
            (m_stationary_distribution m) = Inr sdf"
    and acc: "accumulate sdf (m_dtrajs_full m) [] 0 = Inr (W, wtot)"
    by (auto simp: raw_weights_def split: sum.splits)
  from accumulate_shape [OF acc] put acc that show thesis by simp
qed

lemma np_take_length: "np_take a idx = Inr w \<Longrightarrow> length w = length idx"
  by (auto simp: np_take_def split: if_splits)

lemma np_take_nth:
  "np_take a idx = Inr w \<Longrightarrow> t < length idx \<Longrightarrow>
   in_bounds (length a) (idx ! t) \<and> w ! t = a ! wrap (length a) (idx ! t)"
  by (auto simp: np_take_def list_all_length split: if_splits)

text \<open>
  When the call returns, it returns one array per trajectory, of the length of that
  trajectory.
\<close>

lemma trajectory_weights_shape:
  assumes "trajectory_weights m = Inr R"
  shows "length R = length (m_dtrajs_full m) \<and>
         (\<forall>i < length R. length (R ! i) = length (m_dtrajs_full m ! i))"
proof -
  from assms obtain W wtot where raw: "raw_weights m = Inr (W, wtot)"
    and R: "R = map (map (\<lambda>w. np_div w wtot)) W"
    by (auto simp: trajectory_weights_def split: sum.splits)
  from raw obtain sdf where len: "length W = length (m_dtrajs_full m)"
    and nth: "\<forall>i < length (m_dtrajs_full m). np_take sdf (m_dtrajs_full m ! i) = Inr (W ! i)"
    by (rule raw_weights_shape)
  from nth have "length (W ! i) = length (m_dtrajs_full m ! i)" if "i < length W" for i
    using that len by (auto dest: np_take_length)
  with len R show ?thesis by simp
qed

text \<open>
  A frame with a non-negative label outside an active set of non-negative labels has the
  unnormalised weight \<open>0\<close>, which a total other than zero leaves as it is.
\<close>

lemma inactive_frame_zero:
  assumes "raw_weights m = Inr (W, wtot)" and "wtot \<noteq> 0"
    and "\<forall>s \<in> set (m_active_set m). 0 \<le> sint s"
    and "i < length (m_dtrajs_full m)" and "t < length (m_dtrajs_full m ! i)"
    and "0 \<le> sint (m_dtrajs_full m ! i ! t)"
    and "m_dtrajs_full m ! i ! t \<notin> set (m_active_set m)"
  shows "\<exists>R. trajectory_weights m = Inr R \<and> R ! i ! t = Finite 0"
proof -
  let ?s = "m_dtrajs_full m ! i ! t"
  from assms(1) obtain sdf where
    put: "np_put (replicate (m_nstates_full m) 0) (m_active_set m)
            (m_stationary_distribution m) = Inr sdf"
    and len: "length W = length (m_dtrajs_full m)"
    and nth: "\<forall>i < length (m_dtrajs_full m). np_take sdf (m_dtrajs_full m ! i) = Inr (W ! i)"
    by (rule raw_weights_shape)
  from nth assms(4) have take: "np_take sdf (m_dtrajs_full m ! i) = Inr (W ! i)" by simp
  have n: "length sdf = m_nstates_full m"
    using np_put_length [OF put] by simp
  from np_take_nth [OF take assms(5)] assms(6)
  have bound: "nat (sint ?s) < m_nstates_full m" and w: "W ! i ! t = sdf ! nat (sint ?s)"
    by (simp_all add: n in_bounds_nonneg wrap_nonneg)
  have "sdf ! nat (sint ?s) = replicate (m_nstates_full m) 0 ! nat (sint ?s)"
    using put assms(3,6,7) by (rule np_put_other)
  with bound w have zero: "W ! i ! t = 0" by simp
  have lt: "t < length (W ! i)"
    using np_take_length [OF take] assms(5) by simp
  have "trajectory_weights m = Inr (map (map (\<lambda>w. np_div w wtot)) W)"
    using assms(1) by (simp add: trajectory_weights_def)
  moreover have "map (map (\<lambda>w. np_div w wtot)) W ! i ! t = Finite 0"
    using assms(2,4) len lt zero by (simp add: np_div_def)
  ultimately show ?thesis by simp
qed

lemma fold_upd_set:
  "set (fold (\<lambda>(i, v) b. b[g i := v]) kvs a) \<subseteq> set a \<union> snd ` set kvs"
proof (induction kvs arbitrary: a)
  case Nil
  then show ?case by simp
next
  case (Cons kv kvs)
  obtain k v where kv: "kv = (k, v)" by (cases kv)
  have "set (a[g k := v]) \<subseteq> insert v (set a)" by (rule set_update_subset_insert)
  with Cons.IH [of "a[g k := v]"] show ?case
    unfolding kv by auto
qed

lemma np_put_set:
  assumes "np_put a idx vals = Inr b"
  shows "set b \<subseteq> set a \<union> set vals"
proof (cases "length vals = length idx")
  case True
  with assms have "b = fold (\<lambda>(i, v) b. b[wrap (length a) i := v]) (zip idx vals) a"
    by (auto simp: np_put_def split: if_splits)
  moreover have "snd ` set (zip idx vals) \<subseteq> set vals"
    by (auto dest: set_zip_rightD)
  ultimately show ?thesis using fold_upd_set [of "wrap (length a)" "zip idx vals" a] by blast
next
  case False
  with assms have one: "length vals = 1"
    and b: "b = fold (\<lambda>(i, v) b. b[wrap (length a) i := v])
                  (zip idx (replicate (length idx) (hd vals))) a"
    by (auto simp: np_put_def split: if_splits)
  from one have "hd vals \<in> set vals" by (cases vals) auto
  then have "snd ` set (zip idx (replicate (length idx) (hd vals))) \<subseteq> set vals"
    by (auto dest!: set_zip_rightD)
  then show ?thesis
    unfolding b
    using fold_upd_set [of "wrap (length a)" "zip idx (replicate (length idx) (hd vals))" a]
    by blast
qed

lemma in_bounds_wrap: "in_bounds n i \<Longrightarrow> wrap n i < n"
  by (auto simp: in_bounds_def wrap_def)

lemma np_take_set: "np_take a idx = Inr w \<Longrightarrow> set w \<subseteq> set a"
  by (auto simp: np_take_def list_all_iff in_bounds_wrap split: if_splits)

lemma sum_list_all_zero: "\<forall>x \<in> set xs. x = 0 \<Longrightarrow> sum_list xs = (0::real)"
  by (induction xs) auto

lemma accumulate_all_zero:
  "accumulate sd ds W wtot = Inr (W', t) \<Longrightarrow> \<forall>w \<in> set W'. \<forall>x \<in> set w. x = 0 \<Longrightarrow> t = wtot"
proof (induction ds arbitrary: W wtot)
  case Nil
  then show ?case by simp
next
  case (Cons d ds)
  from Cons.prems(1) obtain w s where s: "np_sum (W @ [w]) = Inr s"
    and rest: "accumulate sd ds (W @ [w]) (wtot + s) = Inr (W', t)"
    by (auto split: sum.splits)
  from accumulate_shape [OF rest] have "take (length (W @ [w])) W' = W @ [w]" by simp
  then have "set (W @ [w]) \<subseteq> set W'"
    by (metis set_take_subset)
  with Cons.prems(2) have "\<forall>v \<in> set (W @ [w]). sum_list v = 0"
    by (blast intro: sum_list_all_zero)
  then have "sum_list (map sum_list (W @ [w])) = 0"
    by (intro sum_list_all_zero) auto
  with s have "s = 0" by (auto simp: np_sum_def split: if_splits)
  with Cons.IH [OF rest Cons.prems(2)] show ?case by simp
qed

text \<open>
  With non-negative weights a grand total of zero means that every weight is zero; the
  accumulated total is then zero as well, and every quotient is \<open>nan\<close>.
\<close>

lemma zero_total_nan:
  assumes "raw_weights m = Inr (W, wtot)"
    and "\<forall>p \<in> set (m_stationary_distribution m). 0 \<le> p"
    and "sum_list (map sum_list W) = 0"
  shows "wtot = 0 \<and>
         (\<exists>R. trajectory_weights m = Inr R \<and> length R = length (m_dtrajs_full m) \<and>
              (\<forall>i < length R. length (R ! i) = length (m_dtrajs_full m ! i) \<and>
                   (\<forall>t < length (R ! i). R ! i ! t = NaN)))"
proof -
  from assms(1) obtain sdf where
    put: "np_put (replicate (m_nstates_full m) 0) (m_active_set m)
            (m_stationary_distribution m) = Inr sdf"
    and acc: "accumulate sdf (m_dtrajs_full m) [] 0 = Inr (W, wtot)"
    and len: "length W = length (m_dtrajs_full m)"
    and nth: "\<forall>i < length (m_dtrajs_full m). np_take sdf (m_dtrajs_full m ! i) = Inr (W ! i)"
    by (rule raw_weights_shape)
  have sdf_nonneg: "\<forall>x \<in> set sdf. 0 \<le> x"
    using np_put_set [OF put] assms(2) by auto
  have W_nonneg: "\<forall>w \<in> set W. \<forall>x \<in> set w. 0 \<le> x"
  proof
    fix w assume "w \<in> set W"
    then obtain i where "i < length W" "w = W ! i" by (auto simp: in_set_conv_nth)
    with nth len have "np_take sdf (m_dtrajs_full m ! i) = Inr w" by simp
    from np_take_set [OF this] sdf_nonneg show "\<forall>x \<in> set w. 0 \<le> x" by blast
  qed
  then have "\<forall>v \<in> set (map sum_list W). 0 \<le> v"
    by (auto intro: sum_list_nonneg)
  with assms(3) have "\<forall>v \<in> set (map sum_list W). v = 0"
    using sum_list_nonneg_eq_0_iff [of "map sum_list W"] by blast
  then have "\<forall>w \<in> set W. sum_list w = 0" by simp
  with W_nonneg have W_zero: "\<forall>w \<in> set W. \<forall>x \<in> set w. x = 0"
    using sum_list_nonneg_eq_0_iff by blast
  from accumulate_all_zero [OF acc W_zero] have wtot: "wtot = 0" .
  let ?R = "map (map (\<lambda>w. np_div w wtot)) W"
  have tw: "trajectory_weights m = Inr ?R"
    using assms(1) by (simp add: trajectory_weights_def)
  have "?R ! i ! t = NaN" if "i < length ?R" "t < length (?R ! i)" for i t
  proof -
    from that have "W ! i \<in> set W" "W ! i ! t \<in> set (W ! i)" by simp_all
    with W_zero have "W ! i ! t = 0" by blast
    with that wtot show ?thesis by (simp add: np_div_def)
  qed
  with trajectory_weights_shape [OF tw] tw wtot show ?thesis by auto
qed

lemma accumulate_succeeds:
  assumes "\<forall>w \<in> set W. length w = L"
    and "\<forall>d \<in> set ds. length d = L \<and> list_all (in_bounds (length sd)) d"
  shows "\<exists>W' t. accumulate sd ds W wtot = Inr (W', t)"
  using assms
proof (induction ds arbitrary: W wtot)
  case Nil
  then show ?case by simp
next
  case (Cons d ds)
  let ?w = "map (\<lambda>i. sd ! wrap (length sd) i) d"
  from Cons.prems(2) have take: "np_take sd d = Inr ?w" and len: "length ?w = L"
    by (simp_all add: np_take_def)
  have all: "\<forall>w \<in> set (W @ [?w]). length w = L"
    using Cons.prems(1) len by auto
  then have "length (hd (W @ [?w])) = L" by (cases W) simp_all
  with all have sum: "np_sum (W @ [?w]) = Inr (sum_list (map sum_list (W @ [?w])))"
    by (simp add: np_sum_def list_all_iff)
  from Cons.prems(2) have rest: "\<forall>d \<in> set ds. length d = L \<and> list_all (in_bounds (length sd)) d"
    by simp
  from Cons.IH [OF all rest] take sum show ?case by simp
qed

lemma raw_weights_returns:
  assumes "well_formed m" and "equal_lengths (m_dtrajs_full m)"
  shows "\<exists>W wtot. raw_weights m = Inr (W, wtot)"
proof -
  let ?n = "m_nstates_full m"
  from assms(1) have est: "m_is_estimated m"
    and len: "length (m_stationary_distribution m) = length (m_active_set m)"
    and acts: "\<forall>s \<in> set (m_active_set m). 0 \<le> sint s \<and> sint s < int ?n"
    and labels: "\<forall>d \<in> set (m_dtrajs_full m). \<forall>s \<in> set d. 0 \<le> sint s \<and> sint s < int ?n"
    by (simp_all add: well_formed_def list_all_iff)
  have "in_bounds (length (replicate ?n (0 :: real))) s" if "s \<in> set (m_active_set m)" for s
  proof -
    from acts that have "0 \<le> sint s" "sint s < int ?n" by blast+
    then show ?thesis by (simp add: in_bounds_def)
  qed
  then have "\<forall>s \<in> set (m_active_set m). in_bounds (length (replicate ?n (0 :: real))) s"
    by blast
  with len obtain sdf where put:
    "np_put (replicate ?n 0) (m_active_set m) (m_stationary_distribution m) = Inr sdf"
    using np_put_succeeds [of "m_stationary_distribution m" "m_active_set m" "replicate ?n 0"]
    by auto
  have n: "length sdf = ?n" using np_put_length [OF put] by simp
  have "\<forall>d \<in> set (m_dtrajs_full m).
          length d = length (hd (m_dtrajs_full m)) \<and> list_all (in_bounds (length sdf)) d"
  proof
    fix d assume d: "d \<in> set (m_dtrajs_full m)"
    have "in_bounds (length sdf) s" if "s \<in> set d" for s
    proof -
      from labels d that have "0 \<le> sint s" "sint s < int ?n" by blast+
      then show ?thesis by (simp add: n in_bounds_def)
    qed
    with d assms(2) show "length d = length (hd (m_dtrajs_full m)) \<and>
        list_all (in_bounds (length sdf)) d"
      by (simp add: equal_lengths_def list_all_iff)
  qed
  from accumulate_succeeds [OF _ this, of "[]" 0] obtain W wtot
    where "accumulate sdf (m_dtrajs_full m) [] 0 = Inr (W, wtot)" by auto
  with est put show ?thesis
    by (simp add: raw_weights_def check_is_estimated_def)
qed

text \<open>
  Claim C7, as the code has it. On a well-formed model with trajectories of equal length
  the weights are computed. Whenever they are, the labels of the active set are
  non-negative and the accumulated total \<open>wtot\<close> is not zero, every frame whose label
  is a non-negative label outside the active set receives the weight \<open>0\<close>.
\<close>

theorem inactive_frame_weight_zero:
  "(well_formed m \<and> equal_lengths (m_dtrajs_full m) \<longrightarrow>
      (\<exists>W wtot. raw_weights m = Inr (W, wtot))) \<and>
   (\<forall>W wtot. raw_weights m = Inr (W, wtot) \<and> wtot \<noteq> 0 \<and>
        (\<forall>s \<in> set (m_active_set m). 0 \<le> sint s) \<longrightarrow>
      (\<exists>R. trajectory_weights m = Inr R \<and>
        (\<forall>i < length (m_dtrajs_full m). \<forall>t < length (m_dtrajs_full m ! i).
            0 \<le> sint (m_dtrajs_full m ! i ! t) \<and>
            m_dtrajs_full m ! i ! t \<notin> set (m_active_set m) \<longrightarrow>
            R ! i ! t = Finite 0)))"
proof (intro conjI allI impI)
  assume "well_formed m \<and> equal_lengths (m_dtrajs_full m)"
  then show "\<exists>W wtot. raw_weights m = Inr (W, wtot)"
    using raw_weights_returns by blast
next
  fix W wtot
  assume h: "raw_weights m = Inr (W, wtot) \<and> wtot \<noteq> 0 \<and>
        (\<forall>s \<in> set (m_active_set m). 0 \<le> sint s)"
  let ?R = "map (map (\<lambda>w. np_div w wtot)) W"
  have tw: "trajectory_weights m = Inr ?R"
    using h by (simp add: trajectory_weights_def)
  have "?R ! i ! t = Finite 0"
    if "i < length (m_dtrajs_full m)" "t < length (m_dtrajs_full m ! i)"
      "0 \<le> sint (m_dtrajs_full m ! i ! t)"
      "m_dtrajs_full m ! i ! t \<notin> set (m_active_set m)" for i t
  proof -
    from h that inactive_frame_zero [of m W wtot i t]
    obtain R where "trajectory_weights m = Inr R" "R ! i ! t = Finite 0" by blast
    with tw show ?thesis by simp
  qed
  with tw show "\<exists>R. trajectory_weights m = Inr R \<and>
        (\<forall>i < length (m_dtrajs_full m). \<forall>t < length (m_dtrajs_full m ! i).
            0 \<le> sint (m_dtrajs_full m ! i ! t) \<and>
            m_dtrajs_full m ! i ! t \<notin> set (m_active_set m) \<longrightarrow>
            R ! i ! t = Finite 0)"
    by (intro exI [of _ ?R]) blast
qed

lemma init_weights_model:
  "init equal_rows_msm [[0, 2], [0, 1]] ''1 step'' 1 ''largest'' [0, 1] [[0, 1], [2]]
        [[0, 1, 1], [0, 0, 0], [0, 0, 0]] [[0, 1], [0, 0]] [[1/2, 1/2], [1/2, 1/2]]
     = Inr weights_model"
  by (simp add: init_def equal_rows_msm_def numpy_defs weights_model_def eval_nat_numeral)

lemma raw_weights_model:
  "raw_weights weights_model = Inr ([[1/2, 0], [1/2, 1/2]], 2)"
  by (simp add: numpy_defs weights_defs weights_model_def eval_nat_numeral)

theorem inactive_frame_weight_zero_witness:
  "well_formed weights_model \<and> equal_lengths (m_dtrajs_full weights_model) \<and>
   raw_weights weights_model = Inr ([[1/2, 0], [1/2, 1/2]], 2) \<and>
   m_dtrajs_full weights_model ! 0 ! 1 = 2 \<and>
   2 \<notin> set (m_active_set weights_model) \<and>
   trajectory_weights weights_model =
     Inr [[Finite (1/4), Finite 0], [Finite (1/4), Finite (1/4)]]"
proof -
  have wf: "well_formed weights_model" "equal_lengths (m_dtrajs_full weights_model)"
    by (simp_all add: well_formed_def equal_lengths_def weights_model_def)
  have a: "\<forall>s \<in> set (m_active_set weights_model). 0 \<le> sint s"
    by (simp add: weights_model_def)
  have frame: "0 < length (m_dtrajs_full weights_model)"
    "1 < length (m_dtrajs_full weights_model ! 0)"
    "0 \<le> sint (m_dtrajs_full weights_model ! 0 ! 1)"
    "m_dtrajs_full weights_model ! 0 ! 1 \<notin> set (m_active_set weights_model)"
    by (simp_all add: weights_model_def)
  have nz: "(2 :: real) \<noteq> 0" by simp
  from inactive_frame_weight_zero [of weights_model] raw_weights_model nz a
  obtain R where R: "trajectory_weights weights_model = Inr R"
    and zero: "\<forall>i < length (m_dtrajs_full weights_model).
       \<forall>t < length (m_dtrajs_full weights_model ! i).
         0 \<le> sint (m_dtrajs_full weights_model ! i ! t) \<and>
         m_dtrajs_full weights_model ! i ! t \<notin> set (m_active_set weights_model) \<longrightarrow>
         R ! i ! t = Finite 0"
    by blast
  from zero frame have "R ! 0 ! 1 = Finite 0" by blast
  moreover have "trajectory_weights weights_model =
     Inr [[Finite (1/4), Finite 0], [Finite (1/4), Finite (1/4)]]"
    by (simp add: trajectory_weights_def raw_weights_model np_div_def)
  ultimately show ?thesis
    using wf raw_weights_model by (simp add: weights_model_def)
qed

text \<open>
  Two ways for a frame outside the active set to receive a weight other than \<open>0\<close>. When
  no trajectory visits the active set the total is zero and every frame receives \<open>nan\<close>.
  When the active set is \<open>[-1]\<close> over two full states, the frame with label \<open>1\<close>, which is
  not in the active set, receives the weight \<open>1\<close>.
\<close>

theorem inactive_frame_weight_nan:
  "init equal_rows_msm [[1], [2]] ''1 step'' 1 ''largest'' [0] [[0], [1], [2]]
        [[0, 0, 0], [0, 0, 0], [0, 0, 0]] [[0]] [[1]] = Inr outside_model \<and>
   trajectory_weights outside_model = Inr [[NaN], [NaN]] \<and>
   init equal_rows_msm [[0, 1]] ''1 step'' 1 ''largest'' [- 1] [[0, 1]]
        [[0, 1], [0, 0]] [[0]] [[1]] = Inr negative_label_model \<and>
   (1 :: label) \<notin> set (m_active_set negative_label_model) \<and>
   trajectory_weights negative_label_model = Inr [[Finite 0, Finite 1]]"
  by (simp add: init_def equal_rows_msm_def numpy_defs weights_defs outside_model_def
        negative_label_model_def eval_nat_numeral)

text \<open>
  Claim C2, as the code has it. On a well-formed model with trajectories of equal length
  the unnormalised weights are computed. Whenever they are, the stationary distribution
  is non-negative and the grand total of the unnormalised frame weights is zero, the call
  raises nothing: the accumulated total is zero, and the result has one array per
  trajectory, of the length of that trajectory, in which every entry is \<open>nan\<close>.
\<close>

theorem zero_total_returns_nan:
  "(well_formed m \<and> equal_lengths (m_dtrajs_full m) \<longrightarrow>
      (\<exists>W wtot. raw_weights m = Inr (W, wtot))) \<and>
   (\<forall>W wtot. raw_weights m = Inr (W, wtot) \<and>
        (\<forall>p \<in> set (m_stationary_distribution m). 0 \<le> p) \<and>
        sum_list (map sum_list W) = 0 \<longrightarrow>
      wtot = 0 \<and>
      (\<exists>R. trajectory_weights m = Inr R \<and> length R = length (m_dtrajs_full m) \<and>
           (\<forall>i < length R. length (R ! i) = length (m_dtrajs_full m ! i) \<and>
                (\<forall>t < length (R ! i). R ! i ! t = NaN))))"
  using raw_weights_returns [of m] zero_total_nan [of m] by blast

theorem zero_total_returns_nan_witness:
  "well_formed outside_model \<and> equal_lengths (m_dtrajs_full outside_model) \<and>
   raw_weights outside_model = Inr ([[0], [0]], 0) \<and>
   list_all (\<lambda>p. 0 \<le> p) (m_stationary_distribution outside_model) \<and>
   trajectory_weights outside_model = Inr [[NaN], [NaN]]"
proof -
  have wf: "well_formed outside_model" "equal_lengths (m_dtrajs_full outside_model)"
    by (simp_all add: well_formed_def equal_lengths_def outside_model_def)
  have raw: "raw_weights outside_model = Inr ([[0], [0]], 0)"
    by (simp add: numpy_defs weights_defs outside_model_def eval_nat_numeral)
  have p: "\<forall>p \<in> set (m_stationary_distribution outside_model). 0 \<le> p"
    by (simp add: outside_model_def)
  have z: "sum_list (map sum_list [[0], [0 :: real]]) = 0" by simp
  from zero_total_returns_nan [of outside_model] raw p z
  obtain R where R: "trajectory_weights outside_model = Inr R"
    and all: "\<forall>i < length R. length (R ! i) = length (m_dtrajs_full outside_model ! i) \<and>
                (\<forall>t < length (R ! i). R ! i ! t = NaN)"
    by blast
  have "trajectory_weights outside_model = Inr [[NaN], [NaN]]"
    by (simp add: trajectory_weights_def raw np_div_def)
  with wf raw show ?thesis by (simp add: outside_model_def)
qed

text \<open>
  The grand total is zero and nothing is raised: a single trajectory that never visits
  the active set gets the weights \<open>nan\<close>.
\<close>

theorem zero_total_not_raised:
  "init equal_rows_msm [[2, 2]] ''1 step'' 1 ''largest'' [0, 1] [[0, 1], [2]]
        [[0, 0, 0], [0, 0, 0], [0, 0, 1]] [[0, 0], [0, 0]] [[1/2, 1/2], [1/2, 1/2]]
     = Inr unvisited_model \<and>
   raw_weights unvisited_model = Inr ([[0, 0]], 0) \<and>
   trajectory_weights unvisited_model = Inr [[NaN, NaN]]"
  by (simp add: init_def equal_rows_msm_def numpy_defs weights_defs unvisited_model_def
        eval_nat_numeral)

subsection \<open>Active trajectories\<close>

lemma map_dtrajs_ok:
  "\<forall>d \<in> set ds. list_all (in_bounds (length f)) d \<Longrightarrow>
   map_dtrajs f ds acc = Inr (acc @ map (map (\<lambda>s. f ! wrap (length f) s)) ds)"
  by (induction ds arbitrary: acc) (auto simp: np_take_def)

text \<open>
  Claim C9, as the code has it. When the superclass constructor accepts its arguments
  and the labels of the active set and of the trajectories all lie in the full label
  space \<open>0, ..., n - 1\<close>, the model is built and \<open>discrete_trajectories_active\<close> returns
  one array per full trajectory, in the same order and of the same lengths, whose entry
  \<open>t\<close> of trajectory \<open>i\<close> is the map from full to active labels at the label of that frame,
  hence \<open>-1\<close> for a frame outside the active set. The result is also stored in the
  attribute \<open>_dtrajs_active\<close>.
\<close>

theorem discrete_trajectories_active_maps:
  assumes "msm P dt_traj lag = Inr statdist"
    and "\<forall>s \<in> set acts. 0 \<le> sint s \<and> sint s < int (length C_full)"
    and "\<forall>d \<in> set dtrajs. \<forall>s \<in> set d. 0 \<le> sint s \<and> sint s < int (length C_full)"
  shows "\<exists>m ds. init msm dtrajs dt_traj lag conn acts csets C_full C_active P = Inr m \<and>
           discrete_trajectories_active m = Inr (ds, m\<lparr>m_dtrajs_active := Some ds\<rparr>) \<and>
           length ds = length dtrajs \<and>
           (\<forall>i < length dtrajs. length (ds ! i) = length (dtrajs ! i) \<and>
              (\<forall>t < length (dtrajs ! i).
                   ds ! i ! t = m_full2active m ! nat (sint (dtrajs ! i ! t)) \<and>
                   (dtrajs ! i ! t \<notin> set acts \<longrightarrow> ds ! i ! t = - 1)))"
proof -
  let ?n = "length C_full"
  have nonneg: "\<forall>s \<in> set acts. 0 \<le> sint s" using assms(2) by blast
  have "\<forall>s \<in> set acts. in_bounds (length (replicate ?n (- 1 :: int))) s"
    using assms(2) by (auto simp: in_bounds_def)
  then obtain f where put:
    "np_put (replicate ?n (- 1)) acts (map int [0..<length acts]) = Inr f"
    using np_put_succeeds [of "map int [0..<length acts]" acts "replicate ?n (- 1)"] by auto
  define m where "m = \<lparr>
     m_transition_matrix = P, m_stationary_distribution = statdist, m_lag = lag,
     m_connectivity = conn, m_active_set = acts, m_dtrajs_full = dtrajs,
     m_dt_traj = dt_traj, m_C_full = C_full, m_C_active = C_active,
     m_connected_sets = csets, m_nstates_full = ?n, m_full2active = f,
     m_is_estimated = True, m_dtrajs_active = None, m_active_state_indexes = None \<rparr>"
  have built: "init msm dtrajs dt_traj lag conn acts csets C_full C_active P = Inr m"
    using assms(1) put by (simp add: init_def m_def)
  have mf: "m_full2active m = f" and est: "m_is_estimated m" and dt: "m_dtrajs_full m = dtrajs"
    by (simp_all add: m_def)
  have len: "length f = ?n"
    using np_put_length [OF put] by simp
  have inb: "\<forall>d \<in> set dtrajs. list_all (in_bounds (length f)) d"
  proof
    fix d assume d: "d \<in> set dtrajs"
    have "in_bounds (length f) s" if "s \<in> set d" for s
    proof -
      from assms(3) d that have "0 \<le> sint s" "sint s < int ?n" by blast+
      then show ?thesis by (simp add: len in_bounds_def)
    qed
    then show "list_all (in_bounds (length f)) d" by (simp add: list_all_iff)
  qed
  define ds where "ds = map (map (\<lambda>s. f ! wrap (length f) s)) dtrajs"
  have run: "discrete_trajectories_active m = Inr (ds, m\<lparr>m_dtrajs_active := Some ds\<rparr>)"
    using est dt mf map_dtrajs_ok [OF inb, of "[]"]
    by (simp add: discrete_trajectories_active_def check_is_estimated_def ds_def)
  have lens: "length ds = length dtrajs"
    by (simp add: ds_def)
  have leni: "length (ds ! i) = length (dtrajs ! i)" if "i < length dtrajs" for i
    using that by (simp add: ds_def)
  have entry: "ds ! i ! t = m_full2active m ! nat (sint (dtrajs ! i ! t)) \<and>
               (dtrajs ! i ! t \<notin> set acts \<longrightarrow> ds ! i ! t = - 1)"
    if "i < length dtrajs" "t < length (dtrajs ! i)" for i t
  proof -
    let ?s = "dtrajs ! i ! t"
    from that have "dtrajs ! i \<in> set dtrajs" "?s \<in> set (dtrajs ! i)" by simp_all
    with assms(3) have s: "0 \<le> sint ?s" "sint ?s < int ?n" by blast+
    from that s have eq: "ds ! i ! t = f ! nat (sint ?s)" by (simp add: wrap_nonneg ds_def)
    have "f ! nat (sint ?s) = - 1" if "?s \<notin> set acts"
      using np_put_other [OF put nonneg s(1) that] s by simp
    with eq mf show ?thesis by simp
  qed
  have "\<forall>i < length dtrajs. length (ds ! i) = length (dtrajs ! i) \<and>
          (\<forall>t < length (dtrajs ! i).
             ds ! i ! t = m_full2active m ! nat (sint (dtrajs ! i ! t)) \<and>
             (dtrajs ! i ! t \<notin> set acts \<longrightarrow> ds ! i ! t = - 1))"
    using leni entry by (intro allI impI conjI) blast+
  with built run lens show ?thesis by (intro exI [of _ m] exI [of _ ds] conjI)
qed

theorem discrete_trajectories_active_maps_witness:
  "equal_rows_msm [[1/2, 1/2], [1/2, 1/2]] ''1 step'' 1 = Inr [1/2, 1/2] \<and>
   list_all (\<lambda>s. 0 \<le> sint s \<and> sint s < 3) [0, 1 :: label] \<and>
   list_all (list_all (\<lambda>s. 0 \<le> sint s \<and> sint s < 3)) [[0, 2], [0, 1 :: label]] \<and>
   discrete_trajectories_active weights_model =
     Inr ([[0, - 1], [0, 1]], weights_model\<lparr>m_dtrajs_active := Some [[0, - 1], [0, 1]]\<rparr>)"
proof -
  let ?P = "[[1/2, 1/2], [1/2, 1/2 :: real]]"
  let ?C = "[[0, 1, 1], [0, 0, 0], [0, 0, 0 :: int]]"
  have p: "equal_rows_msm ?P ''1 step'' 1 = Inr [1/2, 1/2]"
    by (simp add: equal_rows_msm_def)
  have a: "\<forall>s \<in> set [0, 1 :: label]. 0 \<le> sint s \<and> sint s < int (length ?C)" by simp
  have d: "\<forall>d \<in> set [[0, 2], [0, 1 :: label]]. \<forall>s \<in> set d. 0 \<le> sint s \<and> sint s < int (length ?C)"
    by simp
  from discrete_trajectories_active_maps [where msm = equal_rows_msm and P = ?P
      and dt_traj = "''1 step''" and lag = 1 and acts = "[0, 1]" and C_full = ?C
      and dtrajs = "[[0, 2], [0, 1]]" and conn = "''largest''" and csets = "[[0, 1], [2]]"
      and C_active = "[[0, 1], [0, 0]]", OF p a d] init_weights_model
  obtain ds where "discrete_trajectories_active weights_model
      = Inr (ds, weights_model\<lparr>m_dtrajs_active := Some ds\<rparr>)"
    by auto
  moreover have "discrete_trajectories_active weights_model =
     Inr ([[0, - 1], [0, 1]], weights_model\<lparr>m_dtrajs_active := Some [[0, - 1], [0, 1]]\<rparr>)"
    by (simp add: discrete_trajectories_active_def check_is_estimated_def numpy_defs
          weights_model_def)
  ultimately show ?thesis using p by simp
qed

text \<open>
  Two ways for the claim to fail on a model that the constructor builds. A label of a
  trajectory beyond the full label space makes the accessor raise IndexError. With the
  active set \<open>[-1]\<close> over two full states, the frame with label \<open>1\<close>, which is not in the
  active set, is mapped to \<open>0\<close>.
\<close>

theorem discrete_trajectories_active_fails:
  "init equal_rows_msm [[0, 1, 2]] ''1 step'' 1 ''largest'' [0, 1] [[0, 1]]
        [[0, 1], [0, 0]] [[0, 1], [0, 0]] [[1/2, 1/2], [1/2, 1/2]]
     = Inr out_of_range_model \<and>
   discrete_trajectories_active out_of_range_model = Inl IndexError \<and>
   init equal_rows_msm [[0, 1]] ''1 step'' 1 ''largest'' [- 1] [[0, 1]]
        [[0, 1], [0, 0]] [[0]] [[1]] = Inr negative_label_model \<and>
   (1 :: label) \<notin> set (m_active_set negative_label_model) \<and>
   discrete_trajectories_active negative_label_model =
     Inr ([[- 1, 0]], negative_label_model\<lparr>m_dtrajs_active := Some [[- 1, 0]]\<rparr>)"
  by (simp add: init_def equal_rows_msm_def numpy_defs discrete_trajectories_active_def
        check_is_estimated_def out_of_range_model_def negative_label_model_def
        eval_nat_numeral)

subsection \<open>Count matrices\<close>

text \<open>The constructor stores the two count matrices as they are given.\<close>

lemma count_matrices_stored:
  assumes "init msm dtrajs dt_traj lag conn acts csets C_full C_active P = Inr m"
  shows "count_matrix_active m = Inr C_active \<and> count_matrix_full m = Inr C_full \<and>
         active_set m = Inr acts \<and>
         (count_matrix_active m = Inr (submatrix C_full acts) \<longleftrightarrow>
            C_active = submatrix C_full acts)"
proof -
  from assms have "m_is_estimated m" "m_C_active m = C_active" "m_C_full m = C_full"
    "m_active_set m = acts"
    by (auto simp: init_def Let_def split: sum.splits)
  then show ?thesis
    by (simp add: count_matrix_active_def count_matrix_full_def active_set_def guarded_def
        check_is_estimated_def)
qed

text \<open>
  Claim C4, as the code has it. The constructor builds a model exactly when the
  superclass constructor accepts its arguments and numpy accepts the labels of the active
  set as indices; it stores the two count matrices it is given and relates them in no
  way. On every constructed model \<open>count_matrix_active\<close> returns the argument \<open>C_active\<close>
  and \<open>count_matrix_full\<close> the argument \<open>C_full\<close>, so that the active count matrix is the
  restriction of the full one to the active set exactly when the arguments were.
\<close>

theorem count_matrices_as_given:
  "((\<exists>m. init msm dtrajs dt_traj lag conn acts csets C_full C_active P = Inr m) \<longleftrightarrow>
      (\<exists>statdist. msm P dt_traj lag = Inr statdist) \<and>
      list_all (in_bounds (length C_full)) acts) \<and>
   (\<forall>m. init msm dtrajs dt_traj lag conn acts csets C_full C_active P = Inr m \<longrightarrow>
      count_matrix_active m = Inr C_active \<and> count_matrix_full m = Inr C_full \<and>
      active_set m = Inr acts \<and>
      (count_matrix_active m = Inr (submatrix C_full acts) \<longleftrightarrow>
         C_active = submatrix C_full acts))"
  using init_succeeds_iff [of msm dtrajs dt_traj lag conn acts csets C_full C_active P]
    count_matrices_stored [of msm dtrajs dt_traj lag conn acts csets C_full C_active P]
  by blast

theorem count_matrices_as_given_witness:
  "init equal_rows_msm [[0, 2, 4, 1], [2, 3]] ''1 step'' 1 ''largest'' [0, 2, 4]
        [[0, 2, 4], [1], [3]]
        [[0,0,1,0,0],[0,0,0,0,0],[0,0,0,1,1],[0,0,0,0,0],[0,1,0,0,0]]
        [[0,1,0],[0,0,1],[0,0,0]]
        [[1/2, 1/4, 1/4], [1/2, 1/4, 1/4], [1/2, 1/4, 1/4]]
     = Inr example_model \<and>
   count_matrix_active example_model = Inr [[0,1,0],[0,0,1],[0,0,0]] \<and>
   submatrix [[0,0,1,0,0],[0,0,0,0,0],[0,0,0,1,1],[0,0,0,0,0],[0,1,0,0,0]] [0, 2, 4]
     = [[0,1,0],[0,0,1],[0,0,0]]"
proof -
  from count_matrices_as_given [where msm = equal_rows_msm] init_example
  have "count_matrix_active example_model = Inr [[0,1,0],[0,0,1],[0,0,0]]" by blast
  moreover have
    "submatrix [[0,0,1,0,0],[0,0,0,0,0],[0,0,0,1,1],[0,0,0,0,0],[0,1,0,0,0]] [0, 2, 4]
       = [[0,1,0],[0,0,1],[0,0,0]]"
    by (simp add: submatrix_def eval_nat_numeral)
  ultimately show ?thesis using init_example by simp
qed

text \<open>
  A model whose active count matrix is not the restriction of its full count matrix.
\<close>

theorem count_matrix_active_not_restriction:
  "init equal_rows_msm [[0, 1, 0]] ''1 step'' 1 ''largest'' [0, 1] [[0, 1]]
        [[0, 1], [1, 0]] [[5, 5], [5, 5]] [[1/2, 1/2], [1/2, 1/2]]
     = Inr inconsistent_counts_model \<and>
   count_matrix_active inconsistent_counts_model = Inr [[5, 5], [5, 5]] \<and>
   count_matrix_full inconsistent_counts_model = Inr [[0, 1], [1, 0]] \<and>
   submatrix [[0, 1], [1, 0]] [0, 1] = [[0, 1], [1, 0]]"
  by (simp add: init_def equal_rows_msm_def numpy_defs count_matrix_active_def
        count_matrix_full_def guarded_def check_is_estimated_def submatrix_def
        inconsistent_counts_model_def eval_nat_numeral)

subsection \<open>The cached index table\<close>

text \<open>A table that an access returns is stored and returned by every later access.\<close>

lemma cached_table_kept:
  assumes "active_state_indexes ix m = Inr (tab, m1)"
  shows "m_active_state_indexes m1 = Some tab \<and>
         active_state_indexes ix' m1 = Inr (tab, m1) \<and>
         (\<forall>ds m2. discrete_trajectories_active m1 = Inr (ds, m2) \<longrightarrow>
              active_state_indexes ix' m2 = Inr (tab, m2))"
proof -
  from assms have est: "m_is_estimated m"
    by (auto simp: active_state_indexes_def check_is_estimated_def split: if_splits)
  from assms est have c: "m_active_state_indexes m1 = Some tab" and e: "m_is_estimated m1"
    by (auto simp: active_state_indexes_def check_is_estimated_def
        split: option.splits sum.splits)
  then have again: "active_state_indexes ix' m1 = Inr (tab, m1)"
    by (simp add: active_state_indexes_def check_is_estimated_def)
  have "active_state_indexes ix' m2 = Inr (tab, m2)"
    if "discrete_trajectories_active m1 = Inr (ds, m2)" for ds m2
  proof -
    from that have "m2 = m1\<lparr>m_dtrajs_active := Some ds\<rparr>"
      by (auto simp: discrete_trajectories_active_def split: sum.splits)
    with c e show ?thesis
      by (simp add: active_state_indexes_def check_is_estimated_def)
  qed
  with c again show ?thesis by blast
qed

text \<open>
  Claim C8. On a model without a stored table an access to \<open>active_state_indexes\<close>
  returns the table that \<open>index_states\<close> computes and stores it. When an access returns a
  table, the table is stored in the model, and every later access returns the same table
  and leaves the model as it is, whatever \<open>index_states\<close> would compute then; an access
  to \<open>discrete_trajectories_active\<close> in between does not touch the stored table.
\<close>

theorem active_state_indexes_cached:
  "(m_is_estimated m \<and> m_active_state_indexes m = None \<and>
      ix (m_dtrajs_full m) (m_active_set m) = Inr tab \<longrightarrow>
      active_state_indexes ix m = Inr (tab, m\<lparr>m_active_state_indexes := Some tab\<rparr>)) \<and>
   (\<forall>t m1. active_state_indexes ix m = Inr (t, m1) \<longrightarrow>
      m_active_state_indexes m1 = Some t \<and>
      active_state_indexes ix' m1 = Inr (t, m1) \<and>
      (\<forall>ds m2. discrete_trajectories_active m1 = Inr (ds, m2) \<longrightarrow>
           active_state_indexes ix' m2 = Inr (t, m2)))"
proof (intro conjI allI impI)
  assume "m_is_estimated m \<and> m_active_state_indexes m = None \<and>
      ix (m_dtrajs_full m) (m_active_set m) = Inr tab"
  then show "active_state_indexes ix m = Inr (tab, m\<lparr>m_active_state_indexes := Some tab\<rparr>)"
    by (simp add: active_state_indexes_def check_is_estimated_def)
next
  fix t m1 assume first: "active_state_indexes ix m = Inr (t, m1)"
  from cached_table_kept [OF first, of ix']
  show "m_active_state_indexes m1 = Some t" and "active_state_indexes ix' m1 = Inr (t, m1)"
    by blast+
  fix ds m2 assume "discrete_trajectories_active m1 = Inr (ds, m2)"
  with cached_table_kept [OF first, of ix']
  show "active_state_indexes ix' m2 = Inr (t, m2)" by blast
qed

theorem active_state_indexes_cached_witness:
  "active_state_indexes index_states example_model =
     Inr ([[(0, 0)], [(0, 1), (1, 0)], [(0, 2)]],
          example_model\<lparr>m_active_state_indexes :=
             Some [[(0, 0)], [(0, 1), (1, 0)], [(0, 2)]]\<rparr>) \<and>
   active_state_indexes index_states
       (example_model\<lparr>m_active_state_indexes :=
             Some [[(0, 0)], [(0, 1), (1, 0)], [(0, 2)]]\<rparr>) =
     Inr ([[(0, 0)], [(0, 1), (1, 0)], [(0, 2)]],
          example_model\<lparr>m_active_state_indexes :=
             Some [[(0, 0)], [(0, 1), (1, 0)], [(0, 2)]]\<rparr>)"
proof -
  let ?tab = "[[(0, 0)], [(0, 1), (1, 0)], [(0 :: nat, 2 :: nat)]]"
  have ix: "index_states (m_dtrajs_full example_model) (m_active_set example_model) = Inr ?tab"
    unfolding example_model_def by code_simp
  have pre: "m_is_estimated example_model" "m_active_state_indexes example_model = None"
    by (simp_all add: example_model_def)
  note cached = active_state_indexes_cached [of example_model index_states ?tab index_states]
  from cached pre ix have first: "active_state_indexes index_states example_model =
     Inr (?tab, example_model\<lparr>m_active_state_indexes := Some ?tab\<rparr>)"
    by blast
  with cached show ?thesis by blast
qed

subsection \<open>Copies in the store\<close>

lemma deepcopy_items_extends:
  "deepcopy_items h memo items = (h', items') \<Longrightarrow> \<exists>ext. h' = h @ ext"
proof (induction items arbitrary: h memo h' items')
  case Nil
  then show ?case by simp
next
  case (Cons a as)
  show ?case
  proof (cases "map_of memo a")
    case (Some a')
    with Cons.prems obtain as' where "deepcopy_items h memo as = (h', as')"
      by (auto split: prod.splits)
    then show ?thesis by (rule Cons.IH)
  next
    case None
    with Cons.prems obtain as' where
      "deepcopy_items (h @ [h ! a]) ((a, length h) # memo) as = (h', as')"
      by (auto simp: alloc_def split: prod.splits)
    from Cons.IH [OF this] obtain ext where "h' = (h @ [h ! a]) @ ext" by blast
    then have "h' = h @ ([h ! a] @ ext)" by simp
    then show ?thesis by blast
  qed
qed

lemma deepcopy_items_fresh:
  assumes "deepcopy_items h memo items = (h', items')"
    and "\<forall>(a, a') \<in> set memo. n \<le> a' \<and> a' < length h"
    and "n \<le> length h"
  shows "(\<exists>ext. h' = h @ ext) \<and> length items' = length items \<and>
         (\<forall>x \<in> set items'. n \<le> x \<and> x < length h')"
  using assms
proof (induction items arbitrary: h memo h' items')
  case Nil
  then show ?case by simp
next
  case (Cons a as)
  show ?case
  proof (cases "map_of memo a")
    case (Some a')
    with Cons.prems(1) obtain as' where rest: "deepcopy_items h memo as = (h', as')"
      and items': "items' = a' # as'"
      by (auto split: prod.splits)
    from Some have "(a, a') \<in> set memo" by (rule map_of_SomeD)
    with Cons.prems(2) have a': "n \<le> a'" "a' < length h" by auto
    from Cons.IH [OF rest Cons.prems(2,3)] obtain ext where ext: "h' = h @ ext"
      and len: "length as' = length as"
      and fr: "\<forall>x \<in> set as'. n \<le> x \<and> x < length h'"
      by blast
    from a' ext have "a' < length h'" by simp
    with a' ext len fr items' show ?thesis by auto
  next
    case None
    let ?h1 = "h @ [h ! a]"
    let ?memo = "(a, length h) # memo"
    from None Cons.prems(1) obtain as' where rest: "deepcopy_items ?h1 ?memo as = (h', as')"
      and items': "items' = length h # as'"
      by (auto simp: alloc_def split: prod.splits)
    have memo: "\<forall>(a, a') \<in> set ?memo. n \<le> a' \<and> a' < length ?h1"
      using Cons.prems(2,3) by auto
    have "n \<le> length ?h1" using Cons.prems(3) by simp
    from Cons.IH [OF rest memo this] obtain ext where ext: "h' = ?h1 @ ext"
      and len: "length as' = length as"
      and fr: "\<forall>x \<in> set as'. n \<le> x \<and> x < length h'"
      by blast
    from ext have "h' = h @ ([h ! a] @ ext)" by simp
    moreover from ext have "length h < length h'" by simp
    ultimately show ?thesis
      using Cons.prems(3) len fr items' by auto
  qed
qed

lemma deepcopy_items_content:
  assumes "deepcopy_items h memo items = (h', items')"
    and "\<forall>a < length h0. h ! a = h0 ! a"
    and "length h0 \<le> length h"
    and "\<forall>(a, a') \<in> set memo. a' < length h \<and> h ! a' = h0 ! a"
    and "\<forall>a \<in> set items. a < length h0"
  shows "\<forall>i < length items. h' ! (items' ! i) = h0 ! (items ! i)"
  using assms
proof (induction items arbitrary: h memo h' items')
  case Nil
  then show ?case by simp
next
  case (Cons a as)
  show ?case
  proof (cases "map_of memo a")
    case (Some a')
    with Cons.prems(1) obtain as' where rest: "deepcopy_items h memo as = (h', as')"
      and items': "items' = a' # as'"
      by (auto split: prod.splits)
    from Some have "(a, a') \<in> set memo" by (rule map_of_SomeD)
    with Cons.prems(4) have a': "a' < length h" "h ! a' = h0 ! a" by auto
    from deepcopy_items_extends [OF rest] obtain ext where "h' = h @ ext" by blast
    with a' have head: "h' ! a' = h0 ! a" by (simp add: nth_append)
    from Cons.prems(5) have "\<forall>a \<in> set as. a < length h0" by simp
    from Cons.IH [OF rest Cons.prems(2,3,4) this]
    have tail: "\<forall>i < length as. h' ! (as' ! i) = h0 ! (as ! i)" .
    show ?thesis
    proof (intro allI impI)
      fix i assume "i < length (a # as)"
      then show "h' ! (items' ! i) = h0 ! ((a # as) ! i)"
        using head tail items' by (cases i) simp_all
    qed
  next
    case None
    let ?h1 = "h @ [h ! a]"
    let ?memo = "(a, length h) # memo"
    from None Cons.prems(1) obtain as' where rest: "deepcopy_items ?h1 ?memo as = (h', as')"
      and items': "items' = length h # as'"
      by (auto simp: alloc_def split: prod.splits)
    from Cons.prems(5) have a: "a < length h0" and as: "\<forall>a \<in> set as. a < length h0"
      by simp_all
    from a Cons.prems(2) have ha: "h ! a = h0 ! a" by simp
    have p2: "\<forall>x < length h0. ?h1 ! x = h0 ! x"
      using Cons.prems(2,3) by (simp add: nth_append)
    have p3: "length h0 \<le> length ?h1" using Cons.prems(3) by simp
    have p4: "\<forall>(x, x') \<in> set ?memo. x' < length ?h1 \<and> ?h1 ! x' = h0 ! x"
      using Cons.prems(4) ha by (auto simp: nth_append)
    from Cons.IH [OF rest p2 p3 p4 as]
    have tail: "\<forall>i < length as. h' ! (as' ! i) = h0 ! (as ! i)" .
    from deepcopy_items_extends [OF rest] obtain ext where "h' = ?h1 @ ext" by blast
    then have head: "h' ! length h = h0 ! a"
      using ha by (simp add: nth_append)
    show ?thesis
    proof (intro allI impI)
      fix i assume "i < length (a # as)"
      then show "h' ! (items' ! i) = h0 ! ((a # as) ! i)"
        using head tail items' by (cases i) simp_all
    qed
  qed
qed

lemma deepcopy_fresh:
  assumes "deepcopy h a = (h', a')" and "n \<le> length h"
  shows "(\<exists>ext. h' = h @ ext) \<and> fresh_ref n h' a'"
proof (cases "h ! a")
  case (PyList items)
  with assms(1) obtain h1 items' where items: "deepcopy_items h [] items = (h1, items')"
    and h': "h' = h1 @ [PyList items']" and a': "a' = length h1"
    by (auto simp: deepcopy_def alloc_def split: prod.splits)
  from deepcopy_items_fresh [OF items _ assms(2)] obtain ext where ext: "h1 = h @ ext"
    and fr: "\<forall>x \<in> set items'. n \<le> x \<and> x < length h1"
    by auto
  from ext h' have "h' = h @ (ext @ [PyList items'])" by simp
  moreover have "fresh_ref n h' a'"
    using assms(2) ext fr by (auto simp: fresh_ref_def h' a' list_all_iff)
  ultimately show ?thesis by blast
next
  case (Labels xs)
  with assms show ?thesis
    by (auto simp: deepcopy_def alloc_def fresh_ref_def)
next
  case (Counts c)
  with assms show ?thesis
    by (auto simp: deepcopy_def alloc_def fresh_ref_def)
qed

lemma deepcopy_content:
  assumes "deepcopy h a = (h', a')" and "valid_ref h0 a"
    and "\<forall>x < length h0. h ! x = h0 ! x" and "length h0 \<le> length h"
  shows "labels_at h' a' = labels_at h0 a \<and> counts_at h' a' = counts_at h0 a \<and>
         arrays_at h' a' = arrays_at h0 a"
proof -
  from assms(2) have a: "a < length h0" by (simp add: valid_ref_def)
  with assms(3) have same: "h ! a = h0 ! a" by simp
  show ?thesis
  proof (cases "h0 ! a")
    case (PyList items)
    with same assms(1) obtain h1 items' where items: "deepcopy_items h [] items = (h1, items')"
      and h': "h' = h1 @ [PyList items']" and a': "a' = length h1"
      by (auto simp: deepcopy_def alloc_def split: prod.splits)
    from assms(2) PyList have valid: "\<forall>x \<in> set items. x < length h0"
      by (simp add: valid_ref_def list_all_iff)
    from deepcopy_items_fresh [OF items, of 0] have len: "length items' = length items"
      and bound: "\<forall>x \<in> set items'. x < length h1"
      by auto
    from deepcopy_items_content [OF items assms(3,4) _ valid]
    have content: "\<forall>i < length items. h1 ! (items' ! i) = h0 ! (items ! i)" by simp
    have "labels_at h' (items' ! i) = labels_at h0 (items ! i)" if "i < length items" for i
    proof -
      from that len bound have "items' ! i < length h1" by simp
      then have "h' ! (items' ! i) = h1 ! (items' ! i)" by (simp add: h' nth_append)
      with content that show ?thesis by (simp add: labels_at_def)
    qed
    then have "map (labels_at h') items' = map (labels_at h0) items"
      using len by (simp add: list_eq_iff_nth_eq)
    then show ?thesis
      using PyList by (simp add: labels_at_def counts_at_def arrays_at_def h' a')
  next
    case (Labels xs)
    with same assms(1) show ?thesis
      by (auto simp: deepcopy_def alloc_def labels_at_def counts_at_def arrays_at_def)
  next
    case (Counts c)
    with same assms(1) show ?thesis
      by (auto simp: deepcopy_def alloc_def labels_at_def counts_at_def arrays_at_def)
  qed
qed

lemma fresh_ref_agree:
  assumes "fresh_ref n h a" and "\<forall>x. n \<le> x \<and> x < length h \<longrightarrow> g ! x = h ! x"
  shows "labels_at g a = labels_at h a \<and> counts_at g a = counts_at h a \<and>
         arrays_at g a = arrays_at h a"
proof -
  from assms have same: "g ! a = h ! a" by (simp add: fresh_ref_def)
  show ?thesis
  proof (cases "h ! a")
    case (PyList items)
    with assms(1) have "\<forall>x \<in> set items. n \<le> x \<and> x < length h"
      by (simp add: fresh_ref_def list_all_iff)
    with assms(2) have "\<forall>x \<in> set items. g ! x = h ! x" by blast
    then have "map (labels_at g) items = map (labels_at h) items"
      by (simp add: labels_at_def)
    with same PyList show ?thesis
      by (simp add: labels_at_def counts_at_def arrays_at_def)
  next
    case (Labels xs)
    with same show ?thesis by (simp add: labels_at_def counts_at_def arrays_at_def)
  next
    case (Counts c)
    with same show ?thesis by (simp add: labels_at_def counts_at_def arrays_at_def)
  qed
qed

lemma fresh_ref_extend:
  assumes "fresh_ref n h a"
  shows "fresh_ref n (h @ ext) a \<and> labels_at (h @ ext) a = labels_at h a \<and>
         counts_at (h @ ext) a = counts_at h a \<and> arrays_at (h @ ext) a = arrays_at h a"
proof -
  have agree: "\<forall>x. n \<le> x \<and> x < length h \<longrightarrow> (h @ ext) ! x = h ! x"
    by (simp add: nth_append)
  from assms have "(h @ ext) ! a = h ! a" by (simp add: fresh_ref_def nth_append)
  with assms have "fresh_ref n (h @ ext) a"
    by (auto simp: fresh_ref_def list_all_iff split: obj.splits)
  with fresh_ref_agree [OF assms agree] show ?thesis by simp
qed

subsection \<open>The constructor on references\<close>

lemma init_obj_example:
  "init_obj equal_rows_msm argument_store 3 ''1 step'' 1 ''largest'' 0 8 4 5
     [[1/2, 1/4, 1/4], [1/2, 1/4, 1/4], [1/2, 1/4, 1/4]] = Inr (built_store, built_object)"
  by (simp add: init_obj_def equal_rows_msm_def deepcopy_def alloc_def numpy_defs
        labels_at_def counts_at_def argument_store_def built_store_def built_object_def
        example_model_def eval_nat_numeral upt_rec)

lemma view_built: "view built_store built_object = example_model"
  by (simp add: view_def labels_at_def counts_at_def arrays_at_def built_store_def
        argument_store_def built_object_def example_model_def)

text \<open>
  The five copies in a row: every copy is fresh in the last store, and holds what the
  argument held in the first.
\<close>

lemma deepcopy_chain:
  assumes c1: "deepcopy h active_set_ref = (h1, a1)"
    and c2: "deepcopy h1 dtrajs_ref = (h2, a2)"
    and c3: "deepcopy h2 C_full_ref = (h3, a3)"
    and c4: "deepcopy h3 C_active_ref = (h4, a4)"
    and c5: "deepcopy h4 connected_sets_ref = (h5, a5)"
  shows "fresh_ref (length h) h5 a1 \<and> fresh_ref (length h) h5 a2 \<and>
         fresh_ref (length h) h5 a3 \<and> fresh_ref (length h) h5 a4 \<and>
         fresh_ref (length h) h5 a5"
    and "valid_ref h active_set_ref \<Longrightarrow> labels_at h5 a1 = labels_at h active_set_ref"
    and "valid_ref h dtrajs_ref \<Longrightarrow> arrays_at h5 a2 = arrays_at h dtrajs_ref"
    and "valid_ref h C_full_ref \<Longrightarrow> counts_at h5 a3 = counts_at h C_full_ref
           \<and> counts_at h5 C_full_ref = counts_at h C_full_ref"
    and "valid_ref h C_active_ref \<Longrightarrow> counts_at h5 a4 = counts_at h C_active_ref"
    and "valid_ref h connected_sets_ref \<Longrightarrow> arrays_at h5 a5 = arrays_at h connected_sets_ref"
proof -
  let ?n = "length h"
  from deepcopy_fresh [OF c1, of ?n] obtain e1 where e1: "h1 = h @ e1"
    and f1: "fresh_ref ?n h1 a1" by auto
  from deepcopy_fresh [OF c2, of ?n] e1 obtain e2 where e2: "h2 = h1 @ e2"
    and f2: "fresh_ref ?n h2 a2" by auto
  from deepcopy_fresh [OF c3, of ?n] e1 e2 obtain e3 where e3: "h3 = h2 @ e3"
    and f3: "fresh_ref ?n h3 a3" by auto
  from deepcopy_fresh [OF c4, of ?n] e1 e2 e3 obtain e4 where e4: "h4 = h3 @ e4"
    and f4: "fresh_ref ?n h4 a4" by auto
  from deepcopy_fresh [OF c5, of ?n] e1 e2 e3 e4 obtain e5 where e5: "h5 = h4 @ e5"
    and f5: "fresh_ref ?n h5 a5" by auto
  have x1: "h5 = h1 @ (e2 @ e3 @ e4 @ e5)" using e2 e3 e4 e5 by simp
  have x2: "h5 = h2 @ (e3 @ e4 @ e5)" using e3 e4 e5 by simp
  have x3: "h5 = h3 @ (e4 @ e5)" using e4 e5 by simp
  have x0: "h5 = h @ (e1 @ e2 @ e3 @ e4 @ e5)" using e1 x1 by simp
  note k1 = fresh_ref_extend [OF f1, of "e2 @ e3 @ e4 @ e5", folded x1]
  note k2 = fresh_ref_extend [OF f2, of "e3 @ e4 @ e5", folded x2]
  note k3 = fresh_ref_extend [OF f3, of "e4 @ e5", folded x3]
  note k4 = fresh_ref_extend [OF f4, of e5, folded e5]
  show "fresh_ref (length h) h5 a1 \<and> fresh_ref (length h) h5 a2 \<and>
         fresh_ref (length h) h5 a3 \<and> fresh_ref (length h) h5 a4 \<and>
         fresh_ref (length h) h5 a5"
    using k1 k2 k3 k4 f5 by simp
  have p0: "\<forall>x < length h. h ! x = h ! x" by simp
  have p1: "\<forall>x < length h. h1 ! x = h ! x" by (simp add: e1 nth_append)
  have p2: "\<forall>x < length h. h2 ! x = h ! x" by (simp add: e1 e2 nth_append)
  have p3: "\<forall>x < length h. h3 ! x = h ! x" by (simp add: e1 e2 e3 nth_append)
  have p4: "\<forall>x < length h. h4 ! x = h ! x" by (simp add: e1 e2 e3 e4 nth_append)
  have p5: "\<forall>x < length h. h5 ! x = h ! x" by (simp add: x0 nth_append)
  show "labels_at h5 a1 = labels_at h active_set_ref" if "valid_ref h active_set_ref"
    using deepcopy_content [OF c1 that p0] k1 by simp
  show "arrays_at h5 a2 = arrays_at h dtrajs_ref" if "valid_ref h dtrajs_ref"
    using deepcopy_content [OF c2 that p1] k2 by (simp add: e1)
  show "counts_at h5 a3 = counts_at h C_full_ref
          \<and> counts_at h5 C_full_ref = counts_at h C_full_ref" if "valid_ref h C_full_ref"
  proof -
    from that have "C_full_ref < length h" by (simp add: valid_ref_def)
    with p5 have "counts_at h5 C_full_ref = counts_at h C_full_ref"
      by (simp add: counts_at_def)
    with deepcopy_content [OF c3 that p2] k3 show ?thesis by (simp add: e1 e2)
  qed
  show "counts_at h5 a4 = counts_at h C_active_ref" if "valid_ref h C_active_ref"
    using deepcopy_content [OF c4 that p3] k4 by (simp add: e1 e2 e3)
  show "arrays_at h5 a5 = arrays_at h connected_sets_ref" if "valid_ref h connected_sets_ref"
    using deepcopy_content [OF c5 that p4] by (simp add: e1 e2 e3 e4)
qed

text \<open>
  What the constructor leaves behind: the store has grown, every address the object
  holds is fresh, and the fresh objects hold what the arguments held.
\<close>

lemma init_obj_copies:
  assumes "init_obj msm h dtrajs_ref dt_traj lag conn active_set_ref connected_sets_ref
             C_full_ref C_active_ref P = Inr (h', r)"
  shows "fresh_ref (length h) h' (r_active_set r) \<and> fresh_ref (length h) h' (r_dtrajs_full r) \<and>
         fresh_ref (length h) h' (r_C_full r) \<and> fresh_ref (length h) h' (r_C_active r) \<and>
         fresh_ref (length h) h' (r_connected_sets r)"
    and "valid_ref h active_set_ref \<Longrightarrow> labels_at h' (r_active_set r) = labels_at h active_set_ref"
    and "valid_ref h dtrajs_ref \<Longrightarrow> arrays_at h' (r_dtrajs_full r) = arrays_at h dtrajs_ref"
    and "valid_ref h C_full_ref \<Longrightarrow> counts_at h' (r_C_full r) = counts_at h C_full_ref
           \<and> counts_at h' C_full_ref = counts_at h C_full_ref"
    and "valid_ref h C_active_ref \<Longrightarrow> counts_at h' (r_C_active r) = counts_at h C_active_ref"
    and "valid_ref h connected_sets_ref \<Longrightarrow>
           arrays_at h' (r_connected_sets r) = arrays_at h connected_sets_ref"
proof -
  obtain h1 a1 where c1: "deepcopy h active_set_ref = (h1, a1)" by (cases "deepcopy h active_set_ref")
  obtain h2 a2 where c2: "deepcopy h1 dtrajs_ref = (h2, a2)" by (cases "deepcopy h1 dtrajs_ref")
  obtain h3 a3 where c3: "deepcopy h2 C_full_ref = (h3, a3)" by (cases "deepcopy h2 C_full_ref")
  obtain h4 a4 where c4: "deepcopy h3 C_active_ref = (h4, a4)" by (cases "deepcopy h3 C_active_ref")
  obtain h5 a5 where c5: "deepcopy h4 connected_sets_ref = (h5, a5)"
    by (cases "deepcopy h4 connected_sets_ref")
  from assms c1 c2 c3 c4 c5 have r: "h' = h5" "r_active_set r = a1" "r_dtrajs_full r = a2"
    "r_C_full r = a3" "r_C_active r = a4" "r_connected_sets r = a5"
    by (auto simp: init_obj_def Let_def split: sum.splits)
  note chain = deepcopy_chain [OF c1 c2 c3 c4 c5]
  show "fresh_ref (length h) h' (r_active_set r) \<and> fresh_ref (length h) h' (r_dtrajs_full r) \<and>
         fresh_ref (length h) h' (r_C_full r) \<and> fresh_ref (length h) h' (r_C_active r) \<and>
         fresh_ref (length h) h' (r_connected_sets r)"
    using chain(1) by (simp add: r)
  show "labels_at h' (r_active_set r) = labels_at h active_set_ref" if "valid_ref h active_set_ref"
    using chain(2) [OF that] by (simp add: r)
  show "arrays_at h' (r_dtrajs_full r) = arrays_at h dtrajs_ref" if "valid_ref h dtrajs_ref"
    using chain(3) [OF that] by (simp add: r)
  show "counts_at h' (r_C_full r) = counts_at h C_full_ref
          \<and> counts_at h' C_full_ref = counts_at h C_full_ref" if "valid_ref h C_full_ref"
    using chain(4) [OF that] by (simp add: r)
  show "counts_at h' (r_C_active r) = counts_at h C_active_ref" if "valid_ref h C_active_ref"
    using chain(5) [OF that] by (simp add: r)
  show "arrays_at h' (r_connected_sets r) = arrays_at h connected_sets_ref"
    if "valid_ref h connected_sets_ref"
    using chain(6) [OF that] by (simp add: r)
qed

lemma init_obj_succeeds:
  assumes "valid_ref h active_set_ref" and "valid_ref h C_full_ref"
    and "msm P dt_traj lag = Inr statdist"
    and "list_all (in_bounds (length (counts_at h C_full_ref))) (labels_at h active_set_ref)"
  shows "\<exists>h' r. init_obj msm h dtrajs_ref dt_traj lag conn active_set_ref connected_sets_ref
                   C_full_ref C_active_ref P = Inr (h', r)"
proof -
  obtain h1 a1 where c1: "deepcopy h active_set_ref = (h1, a1)" by (cases "deepcopy h active_set_ref")
  obtain h2 a2 where c2: "deepcopy h1 dtrajs_ref = (h2, a2)" by (cases "deepcopy h1 dtrajs_ref")
  obtain h3 a3 where c3: "deepcopy h2 C_full_ref = (h3, a3)" by (cases "deepcopy h2 C_full_ref")
  obtain h4 a4 where c4: "deepcopy h3 C_active_ref = (h4, a4)" by (cases "deepcopy h3 C_active_ref")
  obtain h5 a5 where c5: "deepcopy h4 connected_sets_ref = (h5, a5)"
    by (cases "deepcopy h4 connected_sets_ref")
  note chain = deepcopy_chain [OF c1 c2 c3 c4 c5]
  from chain(2) [OF assms(1)] chain(4) [OF assms(2)] assms(4)
  have "list_all (in_bounds (length (counts_at h5 C_full_ref))) (labels_at h5 a1)" by simp
  with assms(3) c1 c2 c3 c4 c5 show ?thesis
    by (simp add: init_obj_def np_put_def Let_def)
qed

lemma init_obj_attrs:
  assumes "init_obj msm h dtrajs_ref dt_traj lag conn active_set_ref connected_sets_ref
             C_full_ref C_active_ref P = Inr (h', r)"
  obtains statdist f2a where "msm P dt_traj lag = Inr statdist"
    and "np_put (replicate (length (counts_at h' C_full_ref)) (- 1))
           (labels_at h' (r_active_set r))
           (map int [0..<length (labels_at h' (r_active_set r))]) = Inr f2a"
    and "r_attrs r = \<lparr>
           m_transition_matrix = P, m_stationary_distribution = statdist, m_lag = lag,
           m_connectivity = conn, m_active_set = [], m_dtrajs_full = [],
           m_dt_traj = dt_traj, m_C_full = [], m_C_active = [], m_connected_sets = [],
           m_nstates_full = length (counts_at h' C_full_ref), m_full2active = f2a,
           m_is_estimated = True, m_dtrajs_active = None, m_active_state_indexes = None \<rparr>"
  using assms
  by (auto simp: init_obj_def Let_def split: sum.splits prod.splits)

text \<open>
  A store that agrees with the one the constructor left on the objects it allocated
  gives the same attributes, and these are the attributes built from the contents of the
  arguments.
\<close>

lemma copies_isolated:
  assumes "init_obj msm h dtrajs_ref dt_traj lag conn active_set_ref connected_sets_ref
             C_full_ref C_active_ref P = Inr (h', r)"
    and "valid_ref h dtrajs_ref" and "valid_ref h active_set_ref"
    and "valid_ref h connected_sets_ref" and "valid_ref h C_full_ref"
    and "valid_ref h C_active_ref"
    and "\<forall>a. length h \<le> a \<and> a < length h' \<longrightarrow> h'' ! a = h' ! a"
  shows "view h'' r = view h' r \<and>
         init msm (arrays_at h dtrajs_ref) dt_traj lag conn (labels_at h active_set_ref)
              (arrays_at h connected_sets_ref) (counts_at h C_full_ref)
              (counts_at h C_active_ref) P = Inr (view h' r) \<and>
         (\<forall>ds m'. discrete_trajectories_active (view h'' r) = Inr (ds, m') \<longrightarrow>
              m' = (view h'' r)\<lparr>m_dtrajs_active := Some ds\<rparr>) \<and>
         (\<forall>ix tab m'. active_state_indexes ix (view h'' r) = Inr (tab, m') \<longrightarrow>
              m' = (view h'' r)\<lparr>m_active_state_indexes := Some tab\<rparr>)"
proof -
  note copies = init_obj_copies [OF assms(1)]
  from copies(1) have fr: "fresh_ref (length h) h' (r_active_set r)"
    "fresh_ref (length h) h' (r_dtrajs_full r)" "fresh_ref (length h) h' (r_C_full r)"
    "fresh_ref (length h) h' (r_C_active r)" "fresh_ref (length h) h' (r_connected_sets r)"
    by simp_all
  have same: "view h'' r = view h' r"
    using fr [THEN fresh_ref_agree, OF assms(7)] by (simp add: view_def)
  from assms(1) obtain statdist f2a where super: "msm P dt_traj lag = Inr statdist"
    and put: "np_put (replicate (length (counts_at h' C_full_ref)) (- 1))
           (labels_at h' (r_active_set r))
           (map int [0..<length (labels_at h' (r_active_set r))]) = Inr f2a"
    and attrs: "r_attrs r = \<lparr>
           m_transition_matrix = P, m_stationary_distribution = statdist, m_lag = lag,
           m_connectivity = conn, m_active_set = [], m_dtrajs_full = [],
           m_dt_traj = dt_traj, m_C_full = [], m_C_active = [], m_connected_sets = [],
           m_nstates_full = length (counts_at h' C_full_ref), m_full2active = f2a,
           m_is_estimated = True, m_dtrajs_active = None, m_active_state_indexes = None \<rparr>"
    by (rule init_obj_attrs)
  have c: "labels_at h' (r_active_set r) = labels_at h active_set_ref"
    "arrays_at h' (r_dtrajs_full r) = arrays_at h dtrajs_ref"
    "counts_at h' (r_C_full r) = counts_at h C_full_ref"
    "counts_at h' C_full_ref = counts_at h C_full_ref"
    "counts_at h' (r_C_active r) = counts_at h C_active_ref"
    "arrays_at h' (r_connected_sets r) = arrays_at h connected_sets_ref"
    using copies(2) [OF assms(3)] copies(3) [OF assms(2)] copies(4) [OF assms(5)]
      copies(5) [OF assms(6)] copies(6) [OF assms(4)]
    by simp_all
  have refines: "init msm (arrays_at h dtrajs_ref) dt_traj lag conn (labels_at h active_set_ref)
              (arrays_at h connected_sets_ref) (counts_at h C_full_ref)
              (counts_at h C_active_ref) P = Inr (view h' r)"
    using super put by (simp add: init_def view_def attrs c)
  have f1: "m' = m\<lparr>m_dtrajs_active := Some ds\<rparr>"
    if "discrete_trajectories_active m = Inr (ds, m')" for m ds m'
    using that by (auto simp: discrete_trajectories_active_def split: sum.splits)
  have f2: "m' = m\<lparr>m_active_state_indexes := Some tab\<rparr>"
    if "active_state_indexes ix m = Inr (tab, m')" for ix m tab m'
    using that
    by (auto simp: active_state_indexes_def split: sum.splits option.splits)
  from same refines f1 f2 show ?thesis by blast
qed

text \<open>
  Claim C10. The constructor builds an object from arguments in a store exactly when it
  builds a model from their contents. Let it build an object, and let the store change
  afterwards in any way that leaves alone the objects which the constructor allocated:
  the trajectories, the active set, the connected sets and the count matrices that were
  passed, every object reachable from them and every other older object may have been
  overwritten. Then every attribute of the object reads as before, and so does every
  accessor, each being a function of the attributes. The attributes are those of the
  model that the constructor builds from the contents the arguments had when it ran: the
  object holds copies. Of the accessors only \<open>discrete_trajectories_active\<close> and
  \<open>active_state_indexes\<close> change the object, each only in the attribute it fills.
\<close>

theorem constructor_isolates_arguments:
  assumes "valid_ref h dtrajs_ref" and "valid_ref h active_set_ref"
    and "valid_ref h connected_sets_ref" and "valid_ref h C_full_ref"
    and "valid_ref h C_active_ref"
  shows "((\<exists>h' r. init_obj msm h dtrajs_ref dt_traj lag conn active_set_ref connected_sets_ref
                     C_full_ref C_active_ref P = Inr (h', r)) \<longleftrightarrow>
          (\<exists>m. init msm (arrays_at h dtrajs_ref) dt_traj lag conn (labels_at h active_set_ref)
                  (arrays_at h connected_sets_ref) (counts_at h C_full_ref)
                  (counts_at h C_active_ref) P = Inr m)) \<and>
         (\<forall>h' r h''.
            init_obj msm h dtrajs_ref dt_traj lag conn active_set_ref connected_sets_ref
              C_full_ref C_active_ref P = Inr (h', r) \<and>
            (\<forall>a. length h \<le> a \<and> a < length h' \<longrightarrow> h'' ! a = h' ! a) \<longrightarrow>
            view h'' r = view h' r \<and>
            init msm (arrays_at h dtrajs_ref) dt_traj lag conn (labels_at h active_set_ref)
              (arrays_at h connected_sets_ref) (counts_at h C_full_ref)
              (counts_at h C_active_ref) P = Inr (view h' r) \<and>
            (\<forall>ds m'. discrete_trajectories_active (view h'' r) = Inr (ds, m') \<longrightarrow>
                 m' = (view h'' r)\<lparr>m_dtrajs_active := Some ds\<rparr>) \<and>
            (\<forall>ix tab m'. active_state_indexes ix (view h'' r) = Inr (tab, m') \<longrightarrow>
                 m' = (view h'' r)\<lparr>m_active_state_indexes := Some tab\<rparr>))"
proof (intro conjI iffI allI impI)
  assume "\<exists>h' r. init_obj msm h dtrajs_ref dt_traj lag conn active_set_ref connected_sets_ref
                     C_full_ref C_active_ref P = Inr (h', r)"
  then obtain h' r where built: "init_obj msm h dtrajs_ref dt_traj lag conn active_set_ref
      connected_sets_ref C_full_ref C_active_ref P = Inr (h', r)" by blast
  have "\<forall>a. length h \<le> a \<and> a < length h' \<longrightarrow> h' ! a = h' ! a" by simp
  from copies_isolated [OF built assms this]
  show "\<exists>m. init msm (arrays_at h dtrajs_ref) dt_traj lag conn (labels_at h active_set_ref)
                  (arrays_at h connected_sets_ref) (counts_at h C_full_ref)
                  (counts_at h C_active_ref) P = Inr m"
    by blast
next
  assume "\<exists>m. init msm (arrays_at h dtrajs_ref) dt_traj lag conn (labels_at h active_set_ref)
                  (arrays_at h connected_sets_ref) (counts_at h C_full_ref)
                  (counts_at h C_active_ref) P = Inr m"
  then have "(\<exists>statdist. msm P dt_traj lag = Inr statdist) \<and>
      list_all (in_bounds (length (counts_at h C_full_ref))) (labels_at h active_set_ref)"
    by (simp only: init_succeeds_iff)
  then show "\<exists>h' r. init_obj msm h dtrajs_ref dt_traj lag conn active_set_ref connected_sets_ref
                     C_full_ref C_active_ref P = Inr (h', r)"
    using init_obj_succeeds [OF assms(2,4)] by blast
next
  fix h' r h''
  assume "init_obj msm h dtrajs_ref dt_traj lag conn active_set_ref connected_sets_ref
              C_full_ref C_active_ref P = Inr (h', r) \<and>
            (\<forall>a. length h \<le> a \<and> a < length h' \<longrightarrow> h'' ! a = h' ! a)"
  then have built: "init_obj msm h dtrajs_ref dt_traj lag conn active_set_ref
      connected_sets_ref C_full_ref C_active_ref P = Inr (h', r)"
    and agree: "\<forall>a. length h \<le> a \<and> a < length h' \<longrightarrow> h'' ! a = h' ! a"
    by blast+
  note iso = copies_isolated [OF built assms agree]
  from iso show "view h'' r = view h' r" by blast
  from iso show "init msm (arrays_at h dtrajs_ref) dt_traj lag conn (labels_at h active_set_ref)
              (arrays_at h connected_sets_ref) (counts_at h C_full_ref)
              (counts_at h C_active_ref) P = Inr (view h' r)" by blast
  fix ds m' assume "discrete_trajectories_active (view h'' r) = Inr (ds, m')"
  with iso show "m' = (view h'' r)\<lparr>m_dtrajs_active := Some ds\<rparr>" by blast
next
  fix h' r h'' ix tab m'
  assume "init_obj msm h dtrajs_ref dt_traj lag conn active_set_ref connected_sets_ref
              C_full_ref C_active_ref P = Inr (h', r) \<and>
            (\<forall>a. length h \<le> a \<and> a < length h' \<longrightarrow> h'' ! a = h' ! a)"
    and "active_state_indexes ix (view h'' r) = Inr (tab, m')"
  then show "m' = (view h'' r)\<lparr>m_active_state_indexes := Some tab\<rparr>"
    by (auto simp: active_state_indexes_def split: sum.splits option.splits)
qed

theorem constructor_isolates_arguments_witness:
  "init_obj equal_rows_msm argument_store 3 ''1 step'' 1 ''largest'' 0 8 4 5
     [[1/2, 1/4, 1/4], [1/2, 1/4, 1/4], [1/2, 1/4, 1/4]] = Inr (built_store, built_object) \<and>
   labels_at argument_store 0 = [0, 2, 4] \<and> labels_at mutated_store 0 = [1, 3] \<and>
   arrays_at argument_store 3 = [[0, 2, 4, 1], [2, 3]] \<and> arrays_at mutated_store 3 = [[2, 3]] \<and>
   view built_store built_object = example_model \<and>
   view mutated_store built_object = example_model"
proof -
  have v: "valid_ref argument_store 3" "valid_ref argument_store 0" "valid_ref argument_store 8"
    "valid_ref argument_store 4" "valid_ref argument_store 5"
    by (simp_all add: valid_ref_def argument_store_def)
  have agree: "\<forall>a. length argument_store \<le> a \<and> a < length built_store \<longrightarrow>
                 mutated_store ! a = built_store ! a"
    by (simp add: mutated_store_def built_store_def argument_store_def)
  from constructor_isolates_arguments [OF v, where msm = equal_rows_msm] init_obj_example agree
  have "view mutated_store built_object = view built_store built_object" by blast
  moreover have "labels_at argument_store 0 = [0, 2, 4]" "labels_at mutated_store 0 = [1, 3]"
    "arrays_at argument_store 3 = [[0, 2, 4, 1], [2, 3]]" "arrays_at mutated_store 3 = [[2, 3]]"
    by (simp_all add: labels_at_def arrays_at_def mutated_store_def built_store_def
          argument_store_def)
  ultimately show ?thesis using init_obj_example view_built by simp
qed

end
